theory Spec2Isabelle
  imports Main
begin

section \<open>JavaScript string primitives\<close>

text \<open>
  A JavaScript string is a sequence of code units; it is modelled as a \<open>string\<close> (a list
  of characters), one list element per code unit, so that \<open>length\<close> is \<open>.length\<close>. A
  \<open>char\<close> has 256 values: the model covers the texts whose code units are below 256. The
  code compares code units with ASCII characters only; \<open>trim\<close> alone knows white space
  beyond that range. Offsets are JavaScript numbers holding integers and are modelled as
  \<open>int\<close>. None of the primitives below can throw.
\<close>

definition js_rel :: "nat \<Rightarrow> int \<Rightarrow> nat" where
  \<comment> \<open>the relative-index rule of \<open>String.prototype.slice\<close>: a negative index counts from the end\<close>
  "js_rel n i = (if i < 0 then nat (max (int n + i) 0) else nat (min i (int n)))"

definition js_slice :: "string \<Rightarrow> int \<Rightarrow> int \<Rightarrow> string" where
  \<comment> \<open>\<open>s.slice(a, b)\<close>\<close>
  "js_slice s a b = take (js_rel (length s) b - js_rel (length s) a) (drop (js_rel (length s) a) s)"

definition js_slice_from :: "string \<Rightarrow> int \<Rightarrow> string" where
  \<comment> \<open>\<open>s.slice(a)\<close>\<close>
  "js_slice_from s a = drop (js_rel (length s) a) s"

definition js_charAt :: "string \<Rightarrow> int \<Rightarrow> char option" where
  \<comment> \<open>\<open>s[i]\<close>; \<open>None\<close> is \<open>undefined\<close>\<close>
  "js_charAt s i = (if 0 \<le> i \<and> i < int (length s) then Some (s ! nat i) else None)"

definition startsWith :: "string \<Rightarrow> string \<Rightarrow> bool" where
  "startsWith s p = (take (length p) s = p)"

definition endsWith :: "string \<Rightarrow> string \<Rightarrow> bool" where
  "endsWith s p = (drop (length s - length p) s = p)"

function index_search :: "string \<Rightarrow> string \<Rightarrow> nat \<Rightarrow> int" where
  "index_search s p i =
     (if length s < i + length p then - 1
      else if take (length p) (drop i s) = p then int i
      else index_search s p (Suc i))"
  by pat_completeness auto
termination
  by (relation "measure (\<lambda>(s, p, i). Suc (length s) - i)") auto

declare index_search.simps [simp del]

definition js_indexOf :: "string \<Rightarrow> string \<Rightarrow> int \<Rightarrow> int" where
  \<comment> \<open>\<open>s.indexOf(p, start)\<close>: the start position is clamped to \<open>[0, s.length]\<close>\<close>
  "js_indexOf s p start = index_search s p (nat (min (max start 0) (int (length s))))"

section \<open>Text Formatting Engine\<close>

datatype FormatCommand = Bold | Italic | Strikethrough | Link

datatype EmptySelectionBehavior = WordBehavior | MarkersBehavior

datatype ItalicDelimiter = Underscore | Asterisk

record FormattingPreferences =
  emptySelectionBehavior :: EmptySelectionBehavior
  italicDelimiter :: ItalicDelimiter

record FormattingOptions =
  linkUrl :: "string option"
  linkText :: "string option"

record TextSelection =
  sfrom :: int
  sto :: int

record Change =
  cfrom :: int
  cto :: int
  cinsert :: string

record TextFormatResult =
  rtext :: string
  rselection :: TextSelection
  rchanged :: bool
  rchange :: "Change option"

definition wordCharCode :: "char \<Rightarrow> bool" where
  \<comment> \<open>\<open>/[A-Za-z0-9_]/\<close> on one code unit\<close>
  "wordCharCode c =
     (let n = (of_char c :: nat)
      in (65 \<le> n \<and> n \<le> 90) \<or> (97 \<le> n \<and> n \<le> 122) \<or> (48 \<le> n \<and> n \<le> 57) \<or> n = 95)"

definition isWordChar :: "char option \<Rightarrow> bool" where
  "isWordChar ch = (case ch of None \<Rightarrow> False | Some c \<Rightarrow> wordCharCode c)"

definition clamp :: "int \<Rightarrow> int \<Rightarrow> int \<Rightarrow> int" where
  "clamp v lo hi = max lo (min hi v)"

definition normalizeSelection :: "TextSelection \<Rightarrow> int \<Rightarrow> TextSelection" where
  "normalizeSelection selection maxLength =
     (let f = clamp (sfrom selection) 0 maxLength;
          t = clamp (sto selection) 0 maxLength
      in if f \<le> t then \<lparr>sfrom = f, sto = t\<rparr> else \<lparr>sfrom = t, sto = f\<rparr>)"

definition replaceRange :: "string \<Rightarrow> int \<Rightarrow> int \<Rightarrow> string \<Rightarrow> string" where
  "replaceRange txt f t replacement = js_slice txt 0 f @ replacement @ js_slice_from txt t"

function wordStart :: "string \<Rightarrow> int \<Rightarrow> int" where
  \<comment> \<open>\<open>while (from > 0 && isWordChar(text[from - 1])) from -= 1\<close>\<close>
  "wordStart txt f =
     (if f > 0 \<and> isWordChar (js_charAt txt (f - 1)) then wordStart txt (f - 1) else f)"
  by pat_completeness auto
termination
  by (relation "measure (\<lambda>(txt, f). nat f)") auto

declare wordStart.simps [simp del]

function wordEnd :: "string \<Rightarrow> int \<Rightarrow> int" where
  \<comment> \<open>\<open>while (to < text.length && isWordChar(text[to])) to += 1\<close>\<close>
  "wordEnd txt t =
     (if t < int (length txt) \<and> isWordChar (js_charAt txt t) then wordEnd txt (t + 1) else t)"
  by pat_completeness auto
termination
  by (relation "measure (\<lambda>(txt, t). nat (int (length txt) - t))") auto

declare wordEnd.simps [simp del]

definition expandSelectionToWord :: "string \<Rightarrow> int \<Rightarrow> TextSelection option" where
  "expandSelectionToWord txt pos =
     (if length txt = 0 then None
      else
        let pivot = clamp pos 0 (int (length txt)) in
        if pivot < int (length txt) \<and> isWordChar (js_charAt txt pivot)
        then Some \<lparr>sfrom = wordStart txt pivot, sto = wordEnd txt (pivot + 1)\<rparr>
        else if pivot > 0 \<and> isWordChar (js_charAt txt (pivot - 1))
        then Some \<lparr>sfrom = wordStart txt (pivot - 1), sto = wordEnd txt (pivot - 1 + 1)\<rparr>
        else None)"

definition resolveTargetSelection ::
  "string \<Rightarrow> TextSelection \<Rightarrow> FormattingPreferences \<Rightarrow> TextSelection" where
  "resolveTargetSelection txt selection preferences =
     (let normalized = normalizeSelection selection (int (length txt)) in
      if sfrom normalized \<noteq> sto normalized then normalized
      else if emptySelectionBehavior preferences = WordBehavior
      then (case expandSelectionToWord txt (sfrom normalized) of
              Some w \<Rightarrow> w | None \<Rightarrow> normalized)
      else normalized)"

definition isWrappedSelection :: "string \<Rightarrow> string \<Rightarrow> bool" where
  "isWrappedSelection selected marker =
     (if length selected < length marker * 2 then False
      else if \<not> startsWith selected marker \<or> \<not> endsWith selected marker then False
      else if length marker = 1
              \<and> (startsWith selected (marker @ marker) \<or> endsWith selected (marker @ marker))
      then False
      else True)"

definition hasSurroundingMarkers :: "string \<Rightarrow> int \<Rightarrow> int \<Rightarrow> string \<Rightarrow> bool" where
  "hasSurroundingMarkers txt f t marker =
     (let k = int (length marker) in
      if f < k \<or> t + k > int (length txt) then False
      else if js_slice txt (f - k) f \<noteq> marker \<or> js_slice txt t (t + k) \<noteq> marker then False
      else if length marker = 1
              \<and> (js_charAt txt (f - k - 1) = Some (hd marker)
                  \<or> js_charAt txt (t + k) = Some (hd marker))
      then False
      else True)"

definition formatMarker ::
  "string \<Rightarrow> TextSelection \<Rightarrow> string \<Rightarrow> FormattingPreferences \<Rightarrow> TextFormatResult" where
  "formatMarker txt selection marker preferences =
     (let target = resolveTargetSelection txt selection preferences;
          selected = js_slice txt (sfrom target) (sto target);
          k = int (length marker)
      in
      if sfrom target = sto target then
        (let insertion = marker @ marker;
             updated = replaceRange txt (sfrom target) (sto target) insertion;
             caret = sfrom target + k
         in \<lparr>rtext = updated, rselection = \<lparr>sfrom = caret, sto = caret\<rparr>,
             rchanged = (updated \<noteq> txt),
             rchange = Some \<lparr>cfrom = sfrom target, cto = sto target, cinsert = insertion\<rparr>\<rparr>)
      else if isWrappedSelection selected marker then
        (let inner = js_slice selected k (int (length selected) - k);
             updated = replaceRange txt (sfrom target) (sto target) inner
         in \<lparr>rtext = updated,
             rselection = \<lparr>sfrom = sfrom target, sto = sfrom target + int (length inner)\<rparr>,
             rchanged = (updated \<noteq> txt),
             rchange = Some \<lparr>cfrom = sfrom target, cto = sto target, cinsert = inner\<rparr>\<rparr>)
      else if hasSurroundingMarkers txt (sfrom target) (sto target) marker then
        (let start = sfrom target - k;
             end = sto target + k;
             updated = replaceRange txt start end selected
         in \<lparr>rtext = updated,
             rselection = \<lparr>sfrom = start, sto = start + int (length selected)\<rparr>,
             rchanged = (updated \<noteq> txt),
             rchange = Some \<lparr>cfrom = start, cto = end, cinsert = selected\<rparr>\<rparr>)
      else
        (let wrapped = marker @ selected @ marker;
             updated = replaceRange txt (sfrom target) (sto target) wrapped
         in \<lparr>rtext = updated,
             rselection = \<lparr>sfrom = sfrom target + k, sto = sto target + k\<rparr>,
             rchanged = (updated \<noteq> txt),
             rchange = Some \<lparr>cfrom = sfrom target, cto = sto target, cinsert = wrapped\<rparr>\<rparr>))"

definition tryUnwrapFullLink :: "string \<Rightarrow> string option" where
  \<comment> \<open>the match of \<open>/^\[([^\]]+)\]\(([^\n)]+)\)$/\<close>, returning group 1: both character
      classes exclude the delimiter that follows them, so the greedy match is the only one\<close>
  "tryUnwrapFullLink selectionText =
     (case selectionText of
        [] \<Rightarrow> None
      | c # rest \<Rightarrow>
          if c \<noteq> CHR ''['' then None
          else
            let label = takeWhile (\<lambda>x. x \<noteq> CHR '']'') rest;
                after = dropWhile (\<lambda>x. x \<noteq> CHR '']'') rest
            in
            if label = [] then None
            else (case after of
                    a # b # tail \<Rightarrow>
                      let url = takeWhile (\<lambda>x. x \<noteq> CHR 0x0A \<and> x \<noteq> CHR '')'') tail;
                          close = dropWhile (\<lambda>x. x \<noteq> CHR 0x0A \<and> x \<noteq> CHR '')'') tail
                      in if a = CHR '']'' \<and> b = CHR ''('' \<and> url \<noteq> [] \<and> close = '')''
                         then Some label else None
                  | _ \<Rightarrow> None))"

definition tryUnwrapLinkAroundSelection :: "string \<Rightarrow> TextSelection \<Rightarrow> TextFormatResult option" where
  "tryUnwrapLinkAroundSelection txt selection =
     (if sfrom selection = 0 \<or> js_charAt txt (sfrom selection - 1) \<noteq> Some CHR ''['' then None
      else
        let labelEnd = js_indexOf txt '']('' (sto selection) in
        if labelEnd \<noteq> sto selection then None
        else
          let urlEnd = js_indexOf txt '')'' (labelEnd + 2) in
          if urlEnd = - 1 then None
          else
            let label = js_slice txt (sfrom selection) (sto selection);
                updated = replaceRange txt (sfrom selection - 1) (urlEnd + 1) label
            in Some \<lparr>rtext = updated,
                     rselection = \<lparr>sfrom = sfrom selection - 1,
                                   sto = sfrom selection - 1 + int (length label)\<rparr>,
                     rchanged = (updated \<noteq> txt),
                     rchange = Some \<lparr>cfrom = sfrom selection - 1, cto = urlEnd + 1,
                                     cinsert = label\<rparr>\<rparr>)"

definition formatLink ::
  "string \<Rightarrow> TextSelection \<Rightarrow> FormattingPreferences \<Rightarrow> FormattingOptions \<Rightarrow> TextFormatResult" where
  "formatLink txt selection preferences options =
     (let target = resolveTargetSelection txt selection preferences;
          selected = js_slice txt (sfrom target) (sto target)
      in
      case tryUnwrapFullLink selected of
        Some fullyWrapped \<Rightarrow>
          (let updated = replaceRange txt (sfrom target) (sto target) fullyWrapped
           in \<lparr>rtext = updated,
               rselection = \<lparr>sfrom = sfrom target,
                             sto = sfrom target + int (length fullyWrapped)\<rparr>,
               rchanged = (updated \<noteq> txt),
               rchange = Some \<lparr>cfrom = sfrom target, cto = sto target,
                               cinsert = fullyWrapped\<rparr>\<rparr>)
      | None \<Rightarrow>
          (case tryUnwrapLinkAroundSelection txt target of
             Some surrounding \<Rightarrow> surrounding
           | None \<Rightarrow>
               (let url = (case linkUrl options of Some u \<Rightarrow> u | None \<Rightarrow> ''https://'') in
                if sfrom target = sto target then
                  (let label = (case linkText options of Some l \<Rightarrow> l | None \<Rightarrow> ''link text'');
                       markdown = ''['' @ label @ '']('' @ url @ '')'';
                       updated = replaceRange txt (sfrom target) (sto target) markdown
                   in \<lparr>rtext = updated,
                       rselection = \<lparr>sfrom = sfrom target + 1,
                                     sto = sfrom target + 1 + int (length label)\<rparr>,
                       rchanged = (updated \<noteq> txt),
                       rchange = Some \<lparr>cfrom = sfrom target, cto = sto target,
                                       cinsert = markdown\<rparr>\<rparr>)
                else
                  (let markdown = ''['' @ selected @ '']('' @ url @ '')'';
                       updated = replaceRange txt (sfrom target) (sto target) markdown
                   in \<lparr>rtext = updated,
                       rselection = \<lparr>sfrom = sfrom target + 1,
                                     sto = sfrom target + 1 + int (length selected)\<rparr>,
                       rchanged = (updated \<noteq> txt),
                       rchange = Some \<lparr>cfrom = sfrom target, cto = sto target,
                                       cinsert = markdown\<rparr>\<rparr>))))"

definition italicMarker :: "FormattingPreferences \<Rightarrow> string" where
  "italicMarker preferences = (if italicDelimiter preferences = Underscore then ''_'' else ''*'')"

definition applyCommandToText ::
  "string \<Rightarrow> TextSelection \<Rightarrow> FormatCommand \<Rightarrow> FormattingPreferences \<Rightarrow> FormattingOptions
     \<Rightarrow> TextFormatResult" where
  "applyCommandToText txt selection command preferences options =
     (case command of
        Bold \<Rightarrow> formatMarker txt selection ''**'' preferences
      | Italic \<Rightarrow> formatMarker txt selection (italicMarker preferences) preferences
      | Strikethrough \<Rightarrow> formatMarker txt selection ''~~'' preferences
      | Link \<Rightarrow> formatLink txt selection preferences options)"

definition wellFormedResult :: "string \<Rightarrow> TextFormatResult \<Rightarrow> bool" where
  "wellFormedResult txt r =
     (0 \<le> sfrom (rselection r) \<and> sfrom (rselection r) \<le> sto (rselection r)
      \<and> sto (rselection r) \<le> int (length (rtext r))
      \<and> rchanged r = (rtext r \<noteq> txt)
      \<and> (case rchange r of
            None \<Rightarrow> False
          | Some c \<Rightarrow> 0 \<le> cfrom c \<and> cfrom c \<le> cto c \<and> cto c \<le> int (length txt)
                      \<and> rtext r = replaceRange txt (cfrom c) (cto c) (cinsert c)))"

definition editCovers :: "TextSelection \<Rightarrow> TextFormatResult \<Rightarrow> bool" where
  \<comment> \<open>the edit descriptor spans the selection \<open>n\<close>, and the resulting selection lies in
      the inserted text\<close>
  "editCovers n r =
     (case rchange r of
        None \<Rightarrow> False
      | Some c \<Rightarrow> cfrom c \<le> sfrom n \<and> sto n \<le> cto c
                  \<and> cfrom c \<le> sfrom (rselection r)
                  \<and> sto (rselection r) \<le> cfrom c + int (length (cinsert c)))"

definition maximalWordRun :: "string \<Rightarrow> int \<Rightarrow> TextSelection \<Rightarrow> bool" where
  \<comment> \<open>the range is the maximal run of word characters that contains or touches position \<open>p\<close>\<close>
  "maximalWordRun txt p tg =
     (sfrom tg \<le> p \<and> p \<le> sto tg \<and> sfrom tg < sto tg
      \<and> (\<forall>i \<in> {sfrom tg ..< sto tg}. isWordChar (js_charAt txt i))
      \<and> \<not> isWordChar (js_charAt txt (sfrom tg - 1))
      \<and> \<not> isWordChar (js_charAt txt (sto tg)))"

definition commandMarker :: "FormatCommand \<Rightarrow> FormattingPreferences \<Rightarrow> string" where
  \<comment> \<open>the marker that \<open>applyCommandToText\<close> hands to \<open>formatMarker\<close> (none for links)\<close>
  "commandMarker command preferences =
     (case command of
        Bold \<Rightarrow> ''**''
      | Italic \<Rightarrow> italicMarker preferences
      | Strikethrough \<Rightarrow> ''~~''
      | Link \<Rightarrow> [])"

definition togglesBack :: "string \<Rightarrow> int \<Rightarrow> int \<Rightarrow> string \<Rightarrow> bool" where
  \<comment> \<open>a condition on the original text and the selection \<open>[f, t)\<close> under which the second
      application of the marker toggle takes the branch opposite to the first\<close>
  "togglesBack txt f t m =
     (let k = int (length m); x = js_slice txt f t in
      if isWrappedSelection x m
      then 2 * k < t - f \<and> \<not> isWrappedSelection (js_slice x k (int (length x) - k)) m
           \<and> \<not> hasSurroundingMarkers txt f t m
      else if hasSurroundingMarkers txt f t m
      then \<not> hasSurroundingMarkers txt (f - k) (t + k) m
      else \<not> (length m = 1
              \<and> (js_charAt txt (f - 1) = Some (hd m) \<or> js_charAt txt t = Some (hd m))))"

section \<open>Multi-Range Formatting Orchestrator\<close>

text \<open>
  \<open>applyFormattingToEditor\<close> reads the document and the selection ranges of the editor
  view, runs the engine over the ranges from right to left and dispatches one transaction.
  The view is modelled by what the function reads (document text, selection ranges, main
  index) and by what it hands to \<open>view.dispatch\<close>. The CodeMirror library is not part of
  the repository: the position map of a change set is a parameter \<open>mp\<close> of the model, and
  \<open>cmMapPos\<close> below is the library's \<open>ChangeSet.of([change], length).mapPos(pos, assoc)\<close>.
\<close>

datatype error = RangeError | TypeError | IndexSizeError

definition MAX_SAFE_INTEGER :: int where
  "MAX_SAFE_INTEGER = 9007199254740991"

definition validChange :: "Change \<Rightarrow> int \<Rightarrow> bool" where
  \<comment> \<open>\<open>ChangeSet.of\<close> throws a \<open>RangeError\<close> for a change with
      \<open>from > to || from < 0 || to > length\<close>\<close>
  "validChange ch len = (\<not> (cfrom ch > cto ch \<or> cfrom ch < 0 \<or> cto ch > len))"

definition cmMapPos :: "Change \<Rightarrow> int \<Rightarrow> int \<Rightarrow> int \<Rightarrow> error + int" where
  "cmMapPos ch len pos assoc =
     (if pos < cfrom ch then Inr pos
      else if pos < cto ch \<or> (pos = cto ch \<and> assoc < 0 \<and> cto ch = cfrom ch)
      then Inr (if pos = cfrom ch \<or> assoc < 0 then cfrom ch
                else cfrom ch + int (length (cinsert ch)))
      else if pos \<le> len then Inr (cfrom ch + int (length (cinsert ch)) + (pos - cto ch))
      else Inl RangeError)"

record OrderEntry =
  ofrom :: int
  oto :: int
  oindex :: nat

fun insertBy :: "('a \<Rightarrow> 'a \<Rightarrow> int) \<Rightarrow> 'a \<Rightarrow> 'a list \<Rightarrow> 'a list" where
  "insertBy cmp x [] = [x]"
| "insertBy cmp x (y # ys) = (if cmp x y \<le> 0 then x # y # ys else y # insertBy cmp x ys)"

definition sortBy :: "('a \<Rightarrow> 'a \<Rightarrow> int) \<Rightarrow> 'a list \<Rightarrow> 'a list" where
  \<comment> \<open>\<open>Array.prototype.sort\<close> with a comparator: a stable sort\<close>
  "sortBy cmp xs = foldr (insertBy cmp) xs []"

definition orderCompare :: "OrderEntry \<Rightarrow> OrderEntry \<Rightarrow> int" where
  "orderCompare a b = (if ofrom a \<noteq> ofrom b then ofrom b - ofrom a else oto b - oto a)"

definition changeCompare :: "Change \<Rightarrow> Change \<Rightarrow> int" where
  \<comment> \<open>\<open>a.from - b.from || a.to - b.to\<close>\<close>
  "changeCompare a b = (if cfrom a - cfrom b \<noteq> 0 then cfrom a - cfrom b else cto a - cto b)"

definition withIndex :: "TextSelection list \<Rightarrow> OrderEntry list" where
  "withIndex rs =
     map (\<lambda>(r, i). \<lparr>ofrom = sfrom r, oto = sto r, oindex = i\<rparr>) (zip rs [0 ..< length rs])"

definition rangeAt :: "TextSelection list \<Rightarrow> nat \<Rightarrow> error + TextSelection" where
  \<comment> \<open>reading a field of \<open>ranges[i]\<close> throws a \<open>TypeError\<close> when the index is out of range\<close>
  "rangeAt rs i = (if i < length rs then Inr (rs ! i) else Inl TypeError)"

record LoopState =
  nextText :: string
  ranges :: "TextSelection list"
  processedIndices :: "nat list"
  changes :: "Change list"
  hasDocumentChange :: bool
  overlapGuard :: int

fun remapProcessed ::
  "(Change \<Rightarrow> int \<Rightarrow> int \<Rightarrow> int \<Rightarrow> error + int) \<Rightarrow> Change \<Rightarrow> int \<Rightarrow> nat list
     \<Rightarrow> TextSelection list \<Rightarrow> error + TextSelection list" where
  "remapProcessed mp ch len [] rs = Inr rs"
| "remapProcessed mp ch len (i # others) rs =
     (case rangeAt rs i of
        Inl e \<Rightarrow> Inl e
      | Inr processed \<Rightarrow>
          (case mp ch len (sfrom processed) (- 1) of
             Inl e \<Rightarrow> Inl e
           | Inr f \<Rightarrow>
               (case mp ch len (sto processed) 1 of
                  Inl e \<Rightarrow> Inl e
                | Inr t \<Rightarrow> remapProcessed mp ch len others (rs[i := \<lparr>sfrom = f, sto = t\<rparr>]))))"

definition loopStep ::
  "(Change \<Rightarrow> int \<Rightarrow> int \<Rightarrow> int \<Rightarrow> error + int) \<Rightarrow> FormatCommand \<Rightarrow> FormattingPreferences
     \<Rightarrow> FormattingOptions \<Rightarrow> LoopState \<Rightarrow> OrderEntry \<Rightarrow> error + LoopState" where
  "loopStep mp command preferences options st entry =
     (case rangeAt (ranges st) (oindex entry) of
        Inl e \<Rightarrow> Inl e
      | Inr current \<Rightarrow>
          (if sto current > overlapGuard st then Inr st
           else
            let beforeText = nextText st;
                result = applyCommandToText beforeText current command preferences options;
                ranges1 = (ranges st)[oindex entry := rselection result];
                guard = min (overlapGuard st)
                          (case rchange result of Some c \<Rightarrow> cfrom c | None \<Rightarrow> sfrom current)
            in
            (case (if rchanged result then rchange result else None) of
              Some ch \<Rightarrow>
                (if \<not> validChange ch (int (length beforeText)) then Inl RangeError
                 else
                  (case remapProcessed mp ch (int (length beforeText)) (processedIndices st) ranges1 of
                     Inl e \<Rightarrow> Inl e
                   | Inr ranges2 \<Rightarrow>
                       Inr \<lparr>nextText = rtext result, ranges = ranges2,
                            processedIndices = processedIndices st @ [oindex entry],
                            changes = changes st @ [ch], hasDocumentChange = True,
                            overlapGuard = guard\<rparr>))
            | None \<Rightarrow>
                Inr \<lparr>nextText = rtext result, ranges = ranges1,
                     processedIndices = processedIndices st @ [oindex entry],
                     changes = changes st, hasDocumentChange = hasDocumentChange st,
                     overlapGuard = guard\<rparr>)))"

fun loopRun ::
  "(Change \<Rightarrow> int \<Rightarrow> int \<Rightarrow> int \<Rightarrow> error + int) \<Rightarrow> FormatCommand \<Rightarrow> FormattingPreferences
     \<Rightarrow> FormattingOptions \<Rightarrow> LoopState \<Rightarrow> OrderEntry list \<Rightarrow> error + LoopState" where
  "loopRun mp command preferences options st [] = Inr st"
| "loopRun mp command preferences options st (entry # rest) =
     (case loopStep mp command preferences options st entry of
        Inl e \<Rightarrow> Inl e
      | Inr st' \<Rightarrow> loopRun mp command preferences options st' rest)"

definition initialState :: "string \<Rightarrow> TextSelection list \<Rightarrow> LoopState" where
  "initialState doc selectionRanges =
     \<lparr>nextText = doc, ranges = selectionRanges, processedIndices = [], changes = [],
      hasDocumentChange = False, overlapGuard = MAX_SAFE_INTEGER\<rparr>"

datatype Outcome =
    NotApplied
  | Dispatched "Change list" "TextSelection list" nat

definition applyFormattingToEditor ::
  "(Change \<Rightarrow> int \<Rightarrow> int \<Rightarrow> int \<Rightarrow> error + int) \<Rightarrow> string \<Rightarrow> TextSelection list \<Rightarrow> nat
     \<Rightarrow> FormatCommand \<Rightarrow> FormattingPreferences \<Rightarrow> FormattingOptions \<Rightarrow> error + Outcome" where
  \<comment> \<open>\<open>NotApplied\<close> is the return value \<open>false\<close>; \<open>Dispatched cs rs i\<close> is the return value
      \<open>true\<close> after dispatching the sorted changes \<open>cs\<close> with the selection built from \<open>rs\<close>
      and main index \<open>i\<close>\<close>
  "applyFormattingToEditor mp doc selectionRanges mainIndex command preferences options =
     (let textLength = int (length doc);
          order = sortBy orderCompare (withIndex selectionRanges)
      in
      case loopRun mp command preferences options (initialState doc selectionRanges) order of
        Inl e \<Rightarrow> Inl e
      | Inr st \<Rightarrow>
          (if \<not> hasDocumentChange st then Inr NotApplied
           else
            let sorted = sortBy changeCompare (changes st) in
            if \<not> list_all (\<lambda>c. validChange c textLength) sorted then Inl RangeError
            else Inr (Dispatched sorted (ranges st) mainIndex)))"

fun nonOverlapping :: "Change list \<Rightarrow> bool" where
  \<comment> \<open>consecutive changes of a list sorted by \<open>from\<close> do not overlap\<close>
  "nonOverlapping (a # b # rest) = (cto a \<le> cfrom b \<and> nonOverlapping (b # rest))"
| "nonOverlapping _ = True"

definition changes_of_run :: "error + LoopState \<Rightarrow> Change list" where
  \<comment> \<open>the edit descriptors accumulated by a run of the loop (none when it threw)\<close>
  "changes_of_run r = (case r of Inl e \<Rightarrow> [] | Inr st \<Rightarrow> changes st)"

section \<open>Selection overlap\<close>

fun isRangeSelected :: "TextSelection list \<Rightarrow> int \<Rightarrow> int \<Rightarrow> bool" where
  "isRangeSelected [] f t = False"
| "isRangeSelected (rng # rest) f t =
     (let cursorPos = sfrom rng in
      if cursorPos \<ge> f \<and> cursorPos \<le> t then True
      else if sfrom rng \<noteq> sto rng
              \<and> min (sfrom rng) (sto rng) < t \<and> max (sfrom rng) (sto rng) > f
      then True
      else isRangeSelected rest f t)"

definition specSelectionOverlapped :: "TextSelection list \<Rightarrow> int \<Rightarrow> int \<Rightarrow> bool" where
  \<comment> \<open>the overlap test in the words of claim C5: a caret within \<open>[f, t]\<close>, or a non-empty
      range whose span meets the half-open interval \<open>[f, t)\<close>\<close>
  "specSelectionOverlapped sel f t =
     list_ex (\<lambda>r. (sfrom r = sto r \<and> f \<le> sfrom r \<and> sfrom r \<le> t)
                  \<or> (sfrom r \<noteq> sto r \<and> max (sfrom r) f < min (sto r) t)) sel"

section \<open>Table parser\<close>

definition isWhiteSpace :: "char \<Rightarrow> bool" where
  \<comment> \<open>the white space and line terminator code units that \<open>trim\<close> removes, among the
      code units a \<open>char\<close> can hold\<close>
  "isWhiteSpace c = ((of_char c :: nat) \<in> {9, 10, 11, 12, 13, 32, 160})"

definition js_trim :: "string \<Rightarrow> string" where
  "js_trim s = rev (dropWhile isWhiteSpace (rev (dropWhile isWhiteSpace s)))"

fun splitOn :: "char \<Rightarrow> string \<Rightarrow> string list" where
  \<comment> \<open>\<open>s.split(c)\<close> for a one-character separator; the empty string gives one empty piece\<close>
  "splitOn c [] = [[]]"
| "splitOn c (x # xs) =
     (if x = c then [] # splitOn c xs
      else (case splitOn c xs of h # t \<Rightarrow> (x # h) # t | [] \<Rightarrow> [[x]]))"

definition parseTableRow :: "string \<Rightarrow> string list" where
  "parseTableRow line =
     (let trimmed = js_trim line;
          trimmed1 = (if startsWith trimmed ''|'' then js_slice_from trimmed 1 else trimmed);
          trimmed2 = (if endsWith trimmed1 ''|'' then js_slice trimmed1 0 (- 1) else trimmed1)
      in map js_trim (splitOn CHR ''|'' trimmed2))"

definition alignCellOk :: "string \<Rightarrow> bool" where
  \<comment> \<open>\<open>/^:?-+:?$/.test(cell)\<close>\<close>
  "alignCellOk cell =
     (let afterColon = (case cell of c # cs \<Rightarrow> if c = CHR '':'' then cs else cell | [] \<Rightarrow> cell);
          dashes = takeWhile (\<lambda>c. c = CHR ''-'') afterColon;
          rest = dropWhile (\<lambda>c. c = CHR ''-'') afterColon
      in dashes \<noteq> [] \<and> (rest = [] \<or> rest = '':''))"

datatype Alignment = AlignLeft | AlignCenter | AlignRight

record TableModel =
  headers :: "string list"
  rows :: "string list list"
  alignments :: "Alignment list"

definition cellAlignment :: "string \<Rightarrow> Alignment" where
  "cellAlignment cell =
     (let c = js_trim cell in
      if startsWith c '':'' \<and> endsWith c '':'' then AlignCenter
      else if endsWith c '':'' then AlignRight
      else AlignLeft)"

definition tableLines :: "string \<Rightarrow> string list" where
  \<comment> \<open>\<open>text.split('\n').filter(l => l.trim().length > 0)\<close>\<close>
  "tableLines txt = filter (\<lambda>l. length (js_trim l) > 0) (splitOn (CHR 0x0A) txt)"

definition parseTableText :: "string \<Rightarrow> TableModel option" where
  "parseTableText txt =
     (let lines = tableLines txt in
      if length lines < 2 then None
      else
        let hdrs = parseTableRow (lines ! 0) in
        if length hdrs = 0 then None
        else
          let alignRow = parseTableRow (lines ! 1) in
          if \<not> list_all (\<lambda>cell. alignCellOk (js_trim cell)) alignRow then None
          else Some \<lparr>headers = hdrs, rows = map parseTableRow (drop 2 lines),
                      alignments = map cellAlignment alignRow\<rparr>)"

section \<open>Document lines and the Table branch of the Decoration Builder\<close>

text \<open>
  The document of the editor state is modelled as its text, with the line feed as the only
  line break. \<open>doc.lineAt(pos)\<close> throws a \<open>RangeError\<close> for a position outside
  \<open>[0, doc.length]\<close>.
\<close>

record Line =
  lfrom :: int
  lto :: int
  ltext :: string
  lnumber :: nat

fun linesFrom :: "int \<Rightarrow> nat \<Rightarrow> string list \<Rightarrow> Line list" where
  "linesFrom pos num [] = []"
| "linesFrom pos num (l # ls) =
     \<lparr>lfrom = pos, lto = pos + int (length l), ltext = l, lnumber = num\<rparr>
       # linesFrom (pos + int (length l) + 1) (Suc num) ls"

definition docLineList :: "string \<Rightarrow> Line list" where
  "docLineList doc = linesFrom 0 1 (splitOn (CHR 0x0A) doc)"

definition lineAt :: "string \<Rightarrow> int \<Rightarrow> error + Line" where
  "lineAt doc pos =
     (if pos < 0 \<or> pos > int (length doc) then Inl RangeError
      else (case find (\<lambda>l. pos \<le> lto l) (docLineList doc) of
              Some l \<Rightarrow> Inr l | None \<Rightarrow> Inl RangeError))"

definition sliceString :: "string \<Rightarrow> int \<Rightarrow> int \<Rightarrow> string" where
  "sliceString doc f t = take (nat (t - f)) (drop (nat f) doc)"

definition blockEnd :: "string \<Rightarrow> int \<Rightarrow> int \<Rightarrow> error + int" where
  "blockEnd doc f t =
     (let safeTo = min t (int (length doc)) in
      if safeTo > f then
        (case lineAt doc safeTo of
           Inl e \<Rightarrow> Inl e
         | Inr line \<Rightarrow> if lfrom line = safeTo then Inr (safeTo - 1) else Inr safeTo)
      else Inr safeTo)"

fun frontmatterScan :: "Line list \<Rightarrow> Line list \<Rightarrow> int \<times> nat" where
  \<comment> \<open>the loop over the lines from the second on: the first line whose trimmed text is
      \<open>---\<close> closes the block; \<open>seen\<close> holds the lines between\<close>
  "frontmatterScan [] seen = (0, 0)"
| "frontmatterScan (l # ls) seen =
     (if js_trim (ltext l) = ''---''
      then (lto l,
            length (filter (\<lambda>x. js_trim (ltext x) \<noteq> [] \<and> CHR '':'' \<in> set (js_trim (ltext x))) seen))
      else frontmatterScan ls (seen @ [l]))"

definition detectFrontmatter :: "string \<Rightarrow> int \<times> nat" where
  \<comment> \<open>the pair is \<open>{end, propCount}\<close>\<close>
  "detectFrontmatter doc =
     (case docLineList doc of
        [] \<Rightarrow> (0, 0)
      | firstLine # others \<Rightarrow>
          if length (firstLine # others) < 2 then (0, 0)
          else if js_trim (ltext firstLine) \<noteq> ''---'' then (0, 0)
          else frontmatterScan others [])"

datatype Decoration = TableWidgetBlock TableModel int int

definition enterTable :: "string \<Rightarrow> TextSelection list \<Rightarrow> int \<Rightarrow> int \<Rightarrow> error + Decoration list" where
  \<comment> \<open>what the \<open>enter\<close> callback of \<open>buildDecorations\<close> pushes at a node named \<open>Table\<close>
      spanning \<open>[f, t]\<close>; the callback returns \<open>false\<close> on every path, so the children are
      not visited\<close>
  "enterTable doc sel f t =
     (let fmEnd = fst (detectFrontmatter doc) in
      if fmEnd > 0 \<and> t \<le> fmEnd then Inr []
      else if \<not> isRangeSelected sel f t then
        (case blockEnd doc f t of
           Inl e \<Rightarrow> Inl e
         | Inr end \<Rightarrow>
             (case lineAt doc f of
                Inl e \<Rightarrow> Inl e
              | Inr firstLine \<Rightarrow>
                  (case lineAt doc end of
                     Inl e \<Rightarrow> Inl e
                   | Inr lastLine \<Rightarrow>
                       (let txt = sliceString doc (lfrom firstLine) (lto lastLine) in
                        case parseTableText txt of
                          Some parsed \<Rightarrow>
                            Inr [TableWidgetBlock parsed (lfrom firstLine) (lto lastLine)]
                        | None \<Rightarrow> Inr []))))
      else Inr [])"

definition tableBlockText :: "string \<Rightarrow> int \<Rightarrow> int \<Rightarrow> string" where
  \<comment> \<open>the text of the lines of the block: from the start of the line of \<open>f\<close> to the end of
      the line of the corrected block end (the empty text where a line lookup throws)\<close>
  "tableBlockText doc f t =
     (case blockEnd doc f t of
        Inl e \<Rightarrow> []
      | Inr end \<Rightarrow>
          (case (lineAt doc f, lineAt doc end) of
             (Inr firstLine, Inr lastLine) \<Rightarrow> sliceString doc (lfrom firstLine) (lto lastLine)
           | _ \<Rightarrow> []))"

section \<open>Table Widget Editing Bridge\<close>

text \<open>
  The widget keeps three arrays (\<open>liveHeaders\<close>, \<open>liveRows\<close>, \<open>liveAligns\<close>) next to the
  rendered grid. The grid is modelled by the text of its header cells and of the cells of
  its body rows; the buffer by its text. A DOM deletion with an index below \<open>-1\<close> or not
  below the number of rows (cells) throws an \<open>IndexSizeError\<close>; the index \<open>-1\<close> removes the
  last one.
\<close>

record WidgetState =
  domHead :: "string list"
  domBody :: "string list list"
  liveHeaders :: "string list"
  liveRows :: "string list list"
  liveAligns :: "Alignment list"
  buffer :: string
  docFrom :: int
  docTo :: int

definition cellOr :: "string list \<Rightarrow> nat \<Rightarrow> string" where
  \<comment> \<open>\<open>row[i] || ''\<close>\<close>
  "cellOr row i = (if i < length row then row ! i else [])"

definition toDOM :: "TableModel \<Rightarrow> int \<Rightarrow> int \<Rightarrow> string \<Rightarrow> WidgetState" where
  \<comment> \<open>the state after \<open>toDOM\<close> has built the header and the body: every body row gets one
      cell per header\<close>
  "toDOM tm f t doc =
     \<lparr>domHead = map js_trim (headers tm),
      domBody = map (\<lambda>row. map (\<lambda>i. js_trim (cellOr row i)) [0 ..< length (headers tm)]) (rows tm),
      liveHeaders = map js_trim (headers tm),
      liveRows = map (map js_trim) (rows tm),
      liveAligns = alignments tm,
      buffer = doc, docFrom = f, docTo = t\<rparr>"

fun joinWith :: "string \<Rightarrow> string list \<Rightarrow> string" where
  "joinWith sep [] = []"
| "joinWith sep [x] = x"
| "joinWith sep (x # y # zs) = x @ sep @ joinWith sep (y # zs)"

definition pad :: "string \<Rightarrow> string" where
  "pad s = '' '' @ s @ '' ''"

definition alignText :: "Alignment \<Rightarrow> string" where
  "alignText a = (case a of AlignCenter \<Rightarrow> '' :---: '' | AlignRight \<Rightarrow> '' ---: '' | AlignLeft \<Rightarrow> '' :--- '')"

definition reconstructMarkdown :: "string list \<Rightarrow> string list list \<Rightarrow> Alignment list \<Rightarrow> string" where
  "reconstructMarkdown hdrs rws aligns =
     (let headerLine = ''|'' @ joinWith ''|'' (map pad hdrs) @ ''|'';
          sepLine = ''|'' @ joinWith ''|'' (map alignText aligns) @ ''|'';
          rowLines = map (\<lambda>row. ''|'' @ joinWith ''|'' (map (\<lambda>i. pad (cellOr row i)) [0 ..< length hdrs]) @ ''|'') rws
      in joinWith [CHR 0x0A] (headerLine # sepLine # rowLines))"

definition sync :: "WidgetState \<Rightarrow> error + WidgetState" where
  "sync st =
     (let newText = reconstructMarkdown (liveHeaders st) (liveRows st) (liveAligns st);
          currentText = sliceString (buffer st) (docFrom st) (docTo st)
      in
      if newText \<noteq> currentText then
        (if \<not> validChange \<lparr>cfrom = docFrom st, cto = docTo st, cinsert = newText\<rparr>
                (int (length (buffer st)))
         then Inl RangeError
         else Inr (st\<lparr>buffer := replaceRange (buffer st) (docFrom st) (docTo st) newText,
                      docTo := docFrom st + int (length newText)\<rparr>))
      else Inr st)"

definition readDOM :: "WidgetState \<Rightarrow> WidgetState" where
  "readDOM st = st\<lparr>liveHeaders := domHead st, liveRows := domBody st\<rparr>"

definition domDeleteAt :: "'a list \<Rightarrow> int \<Rightarrow> error + 'a list" where
  \<comment> \<open>\<open>deleteRow(index)\<close> and \<open>deleteCell(index)\<close>\<close>
  "domDeleteAt xs i =
     (if i < - 1 \<or> i \<ge> int (length xs) then Inl IndexSizeError
      else if i = - 1 then Inr (butlast xs)
      else Inr (take (nat i) xs @ drop (Suc (nat i)) xs))"

definition splice1 :: "'a list \<Rightarrow> int \<Rightarrow> 'a list" where
  \<comment> \<open>\<open>xs.splice(i, 1)\<close>: a negative index counts from the end\<close>
  "splice1 xs i = take (js_rel (length xs) i) xs @ drop (Suc (js_rel (length xs) i)) xs"

fun deleteCells :: "string list list \<Rightarrow> int \<Rightarrow> error + string list list" where
  "deleteCells [] i = Inr []"
| "deleteCells (row # others) i =
     (case domDeleteAt row i of
        Inl e \<Rightarrow> Inl e
      | Inr row' \<Rightarrow> (case deleteCells others i of Inl e \<Rightarrow> Inl e | Inr others' \<Rightarrow> Inr (row' # others')))"

definition addRowDOM :: "WidgetState \<Rightarrow> error + WidgetState" where
  "addRowDOM st =
     sync (st\<lparr>domBody := domBody st @ [map (\<lambda>h. []) (liveHeaders st)],
              liveRows := liveRows st @ [map (\<lambda>h. []) (liveHeaders st)]\<rparr>)"

definition addColumnDOM :: "WidgetState \<Rightarrow> error + WidgetState" where
  "addColumnDOM st0 =
     (let st = readDOM st0 in
      sync (st\<lparr>liveHeaders := liveHeaders st @ [[]],
               liveAligns := liveAligns st @ [AlignLeft],
               domHead := domHead st @ [[]],
               domBody := map (\<lambda>row. row @ [[]]) (domBody st),
               liveRows := map (\<lambda>row. row @ [[]]) (liveRows st)\<rparr>))"

definition deleteRowDOM :: "int \<Rightarrow> WidgetState \<Rightarrow> error + WidgetState" where
  "deleteRowDOM rowIdx st0 =
     (let st = readDOM st0 in
      if length (liveRows st) \<le> 1 then Inr st
      else
        (case domDeleteAt (domBody st) rowIdx of
           Inl e \<Rightarrow> Inl e
         | Inr body \<Rightarrow> sync (st\<lparr>domBody := body, liveRows := splice1 (liveRows st) rowIdx\<rparr>)))"

definition deleteColumnDOM :: "int \<Rightarrow> WidgetState \<Rightarrow> error + WidgetState" where
  "deleteColumnDOM colIdx st0 =
     (let st = readDOM st0 in
      if length (liveHeaders st) \<le> 2 then Inr st
      else
        (case domDeleteAt (domHead st) colIdx of
           Inl e \<Rightarrow> Inl e
         | Inr hd' \<Rightarrow>
             (case deleteCells (domBody st) colIdx of
                Inl e \<Rightarrow> Inl e
              | Inr body \<Rightarrow>
                  sync (st\<lparr>domHead := hd', domBody := body,
                           liveHeaders := splice1 (liveHeaders st) colIdx,
                           liveAligns := splice1 (liveAligns st) colIdx,
                           liveRows := map (\<lambda>row. splice1 row colIdx) (liveRows st)\<rparr>))))"

datatype GridOp = AddRow | AddColumn | DeleteRow int | DeleteColumn int

definition applyGridOp :: "GridOp \<Rightarrow> WidgetState \<Rightarrow> error + WidgetState" where
  \<comment> \<open>the requests that reach the grid: the add-row button and the keys call \<open>readDOM\<close>
      before \<open>addRowDOM\<close>\<close>
  "applyGridOp op st =
     (case op of
        AddRow \<Rightarrow> addRowDOM (readDOM st)
      | AddColumn \<Rightarrow> addColumnDOM st
      | DeleteRow i \<Rightarrow> deleteRowDOM i st
      | DeleteColumn i \<Rightarrow> deleteColumnDOM i st)"

definition gridShapeOk :: "WidgetState \<Rightarrow> bool" where
  \<comment> \<open>at least one data row and two columns, every row with one cell per header\<close>
  "gridShapeOk st =
     (1 \<le> length (domBody st) \<and> 2 \<le> length (domHead st)
      \<and> list_all (\<lambda>row. length row = length (domHead st)) (domBody st))"

definition sameGridAndBuffer :: "WidgetState \<Rightarrow> WidgetState \<Rightarrow> bool" where
  "sameGridAndBuffer a b =
     (domHead a = domHead b \<and> domBody a = domBody b \<and> buffer a = buffer b
      \<and> docFrom a = docFrom b \<and> docTo a = docTo b)"

definition wellPlaced :: "WidgetState \<Rightarrow> bool" where
  \<comment> \<open>the widget's source range lies inside the buffer\<close>
  "wellPlaced st = (0 \<le> docFrom st \<and> docFrom st \<le> docTo st \<and> docTo st \<le> int (length (buffer st)))"

definition opIndexOk :: "GridOp \<Rightarrow> WidgetState \<Rightarrow> bool" where
  \<comment> \<open>a deletion request names a row (column) of the grid, or the last one by \<open>-1\<close>\<close>
  "opIndexOk op st =
     (case op of
        DeleteRow i \<Rightarrow> - 1 \<le> i \<and> i < int (length (domBody st))
      | DeleteColumn i \<Rightarrow> - 1 \<le> i \<and> i < int (length (domHead st))
      | _ \<Rightarrow> True)"

section \<open>Properties of the Text Formatting Engine\<close>

lemma js_slice_in_range:
  "0 \<le> a \<Longrightarrow> a \<le> b \<Longrightarrow> b \<le> int (length s) \<Longrightarrow>
     js_slice s a b = take (nat (b - a)) (drop (nat a) s)"
  by (simp add: js_slice_def js_rel_def nat_diff_distrib)

lemma js_slice_0: "0 \<le> b \<Longrightarrow> b \<le> int (length s) \<Longrightarrow> js_slice s 0 b = take (nat b) s"
  by (simp add: js_slice_def js_rel_def)

lemma js_slice_from_in_range:
  "0 \<le> a \<Longrightarrow> a \<le> int (length s) \<Longrightarrow> js_slice_from s a = drop (nat a) s"
  by (simp add: js_slice_from_def js_rel_def)

lemma length_js_slice:
  "0 \<le> a \<Longrightarrow> a \<le> b \<Longrightarrow> b \<le> int (length s) \<Longrightarrow> int (length (js_slice s a b)) = b - a"
  by (simp add: js_slice_in_range)

lemma replaceRange_in_range:
  "0 \<le> f \<Longrightarrow> f \<le> t \<Longrightarrow> t \<le> int (length s) \<Longrightarrow>
     replaceRange s f t r = take (nat f) s @ r @ drop (nat t) s"
  by (simp add: replaceRange_def js_slice_0 js_slice_from_in_range)

lemma length_replaceRange:
  "0 \<le> f \<Longrightarrow> f \<le> t \<Longrightarrow> t \<le> int (length s) \<Longrightarrow>
     int (length (replaceRange s f t r)) = int (length s) - (t - f) + int (length r)"
  by (auto simp add: replaceRange_in_range min_def)

lemma normalizeSelection_range:
  "0 \<le> n \<Longrightarrow> 0 \<le> sfrom (normalizeSelection s n) \<and>
     sfrom (normalizeSelection s n) \<le> sto (normalizeSelection s n) \<and>
     sto (normalizeSelection s n) \<le> n"
  by (auto simp add: normalizeSelection_def clamp_def Let_def)

lemma normalizeSelection_swap:
  "normalizeSelection \<lparr>sfrom = a, sto = b\<rparr> n = normalizeSelection \<lparr>sfrom = b, sto = a\<rparr> n"
  by (simp add: normalizeSelection_def Let_def)

lemma normalizeSelection_idem:
  "0 \<le> n \<Longrightarrow> normalizeSelection (normalizeSelection s n) n = normalizeSelection s n"
  by (simp add: normalizeSelection_def clamp_def Let_def min_def max_def)

lemma resolveTargetSelection_cong:
  "normalizeSelection s (int (length txt)) = normalizeSelection s' (int (length txt)) \<Longrightarrow>
     resolveTargetSelection txt s p = resolveTargetSelection txt s' p"
  by (simp add: resolveTargetSelection_def)

lemma wordStart_bounds: "0 \<le> f \<Longrightarrow> 0 \<le> wordStart tx f \<and> wordStart tx f \<le> f"
proof (induction tx f rule: wordStart.induct)
  case (1 tx f)
  show ?case
  proof (cases "f > 0 \<and> isWordChar (js_charAt tx (f - 1))")
    case True
    with "1" show ?thesis by (subst wordStart.simps, subst (2) wordStart.simps) auto
  next
    case False
    with "1" show ?thesis by (subst wordStart.simps, subst (2) wordStart.simps) auto
  qed
qed

lemma wordEnd_bounds:
  "t \<le> int (length tx) \<Longrightarrow> t \<le> wordEnd tx t \<and> wordEnd tx t \<le> int (length tx)"
proof (induction tx t rule: wordEnd.induct)
  case (1 tx t)
  show ?case
  proof (cases "t < int (length tx) \<and> isWordChar (js_charAt tx t)")
    case True
    with "1" show ?thesis by (subst wordEnd.simps, subst (2) wordEnd.simps) auto
  next
    case False
    with "1" show ?thesis by (subst wordEnd.simps, subst (2) wordEnd.simps) auto
  qed
qed

lemma formatMarker_cong:
  "resolveTargetSelection s a p = resolveTargetSelection s b p \<Longrightarrow>
     formatMarker s a m p = formatMarker s b m p"
  by (simp only: formatMarker_def)

lemma formatLink_cong:
  "resolveTargetSelection s a p = resolveTargetSelection s b p \<Longrightarrow>
     formatLink s a p opts = formatLink s b p opts"
  by (simp only: formatLink_def)

lemma applyCommandToText_cong:
  "normalizeSelection a (int (length s)) = normalizeSelection b (int (length s)) \<Longrightarrow>
     applyCommandToText s a c p opts = applyCommandToText s b c p opts"
proof -
  assume "normalizeSelection a (int (length s)) = normalizeSelection b (int (length s))"
  then have r: "resolveTargetSelection s a p = resolveTargetSelection s b p"
    by (rule resolveTargetSelection_cong)
  show ?thesis
    unfolding applyCommandToText_def
    by (simp only: formatMarker_cong [OF r] formatLink_cong [OF r])
qed

text \<open>
  Claim C10. The Text Formatting Engine is invariant under swapping the selection
  endpoints: for every text, command, preferences and options, the selection
  \<open>{from: a, to: b}\<close> and the reversed selection \<open>{from: b, to: a}\<close> give identical
  results (text, resulting selection, changed flag and edit descriptor).
\<close>

theorem applyCommandToText_endpoint_swap:
  "applyCommandToText s \<lparr>sfrom = a, sto = b\<rparr> c p opts
     = applyCommandToText s \<lparr>sfrom = b, sto = a\<rparr> c p opts"
  by (rule applyCommandToText_cong) (rule normalizeSelection_swap)

theorem applyCommandToText_endpoint_swap_witness:
  "applyCommandToText ''one two'' \<lparr>sfrom = 1, sto = 5\<rparr> Italic
       \<lparr>emptySelectionBehavior = WordBehavior, italicDelimiter = Underscore\<rparr>
       \<lparr>linkUrl = None, linkText = None\<rparr>
     = applyCommandToText ''one two'' \<lparr>sfrom = 5, sto = 1\<rparr> Italic
       \<lparr>emptySelectionBehavior = WordBehavior, italicDelimiter = Underscore\<rparr>
       \<lparr>linkUrl = None, linkText = None\<rparr>"
  by (rule applyCommandToText_endpoint_swap)

lemma expandSelectionToWord_range:
  assumes "expandSelectionToWord s pos = Some w"
  shows "0 \<le> sfrom w \<and> sfrom w < sto w \<and> sto w \<le> int (length s)"
proof -
  let ?n = "int (length s)"
  let ?pv = "clamp pos 0 ?n"
  have pv: "0 \<le> ?pv" "?pv \<le> ?n" by (simp_all add: clamp_def)
  show ?thesis
  proof (cases "?pv < ?n \<and> isWordChar (js_charAt s ?pv)")
    case True
    with assms have w: "w = \<lparr>sfrom = wordStart s ?pv, sto = wordEnd s (?pv + 1)\<rparr>"
      by (auto simp: expandSelectionToWord_def Let_def split: if_splits)
    from True have "?pv + 1 \<le> ?n" by simp
    from wordEnd_bounds [OF this] wordStart_bounds [OF pv(1), of s] show ?thesis
      unfolding w by simp
  next
    case False
    with assms have c: "?pv > 0" and w: "w = \<lparr>sfrom = wordStart s (?pv - 1), sto = wordEnd s ?pv\<rparr>"
      by (auto simp: expandSelectionToWord_def Let_def split: if_splits)
    from c have "0 \<le> ?pv - 1" by simp
    from wordEnd_bounds [OF pv(2)] wordStart_bounds [OF this, of s] show ?thesis
      unfolding w by simp
  qed
qed

lemma resolveTargetSelection_range:
  "0 \<le> sfrom (resolveTargetSelection s sel p)
   \<and> sfrom (resolveTargetSelection s sel p) \<le> sto (resolveTargetSelection s sel p)
   \<and> sto (resolveTargetSelection s sel p) \<le> int (length s)"
proof -
  have n: "0 \<le> sfrom (normalizeSelection sel (int (length s)))
     \<and> sfrom (normalizeSelection sel (int (length s))) \<le> sto (normalizeSelection sel (int (length s)))
     \<and> sto (normalizeSelection sel (int (length s))) \<le> int (length s)"
    by (rule normalizeSelection_range) simp
  from n show ?thesis
    by (auto simp: resolveTargetSelection_def Let_def split: option.splits
          dest: expandSelectionToWord_range)
qed

lemma formatMarker_wf_aux:
  assumes tg: "resolveTargetSelection s sel p = tg"
    and r: "0 \<le> sfrom tg" "sfrom tg \<le> sto tg" "sto tg \<le> int (length s)"
  shows "wellFormedResult s (formatMarker s sel m p)"
proof -
  have len: "int (length (js_slice s (sfrom tg) (sto tg))) = sto tg - sfrom tg"
    using r by (rule length_js_slice)
  show ?thesis
  proof (cases "sfrom tg = sto tg")
    case True
    with r show ?thesis
      by (simp add: formatMarker_def tg Let_def wellFormedResult_def length_replaceRange)
  next
    case ne: False
    show ?thesis
    proof (cases "isWrappedSelection (js_slice s (sfrom tg) (sto tg)) m")
      case True
      then have k2: "2 * int (length m) \<le> sto tg - sfrom tg"
        using len by (auto simp: isWrappedSelection_def split: if_splits)
      have "int (length (js_slice (js_slice s (sfrom tg) (sto tg)) (int (length m))
                (int (length (js_slice s (sfrom tg) (sto tg))) - int (length m))))
            = sto tg - sfrom tg - 2 * int (length m)"
        using k2 len by (subst length_js_slice) auto
      with True ne r show ?thesis
        by (simp add: formatMarker_def tg Let_def wellFormedResult_def length_replaceRange)
    next
      case nw: False
      show ?thesis
      proof (cases "hasSurroundingMarkers s (sfrom tg) (sto tg) m")
        case True
        then have b: "int (length m) \<le> sfrom tg" "sto tg + int (length m) \<le> int (length s)"
          by (auto simp: hasSurroundingMarkers_def Let_def split: if_splits)
        with True nw ne r len show ?thesis
          by (simp add: formatMarker_def tg Let_def wellFormedResult_def length_replaceRange)
      next
        case False
        with nw ne r len show ?thesis
          by (simp add: formatMarker_def tg Let_def wellFormedResult_def length_replaceRange)
      qed
    qed
  qed
qed

lemma formatMarker_wf: "wellFormedResult s (formatMarker s sel m p)"
  using resolveTargetSelection_range [of s sel p]
  by (intro formatMarker_wf_aux [OF refl]) simp_all

lemma index_search_bounds:
  "index_search s p i \<noteq> - 1 \<Longrightarrow>
     int i \<le> index_search s p i \<and> index_search s p i + int (length p) \<le> int (length s)"
proof (induction s p i rule: index_search.induct)
  case (1 s p i)
  show ?case
  proof (cases "length s < i + length p")
    case True
    with "1.prems" show ?thesis by (simp add: index_search.simps [of s p i])
  next
    case False
    show ?thesis
    proof (cases "take (length p) (drop i s) = p")
      case True
      with False show ?thesis by (simp add: index_search.simps [of s p i])
    next
      case nf: False
      with False have e: "index_search s p i = index_search s p (Suc i)"
        by (simp add: index_search.simps [of s p i])
      with "1.IH" [OF False nf] "1.prems" show ?thesis by simp
    qed
  qed
qed

lemma js_indexOf_bounds:
  assumes "js_indexOf s p start \<noteq> - 1" "0 \<le> start"
  shows "min start (int (length s)) \<le> js_indexOf s p start
         \<and> js_indexOf s p start + int (length p) \<le> int (length s)"
  using index_search_bounds [of s p "nat (min (max start 0) (int (length s)))"] assms
  by (simp add: js_indexOf_def)

lemma tryUnwrapLinkAroundSelection_wf:
  assumes u: "tryUnwrapLinkAroundSelection s tg = Some r"
    and r: "0 \<le> sfrom tg" "sfrom tg \<le> sto tg" "sto tg \<le> int (length s)"
  shows "wellFormedResult s r"
proof -
  let ?le = "js_indexOf s '']('' (sto tg)"
  let ?ue = "js_indexOf s '')'' (?le + 2)"
  from u have f: "sfrom tg \<noteq> 0" and le: "?le = sto tg" and ue: "?ue \<noteq> - 1"
    by (auto simp: tryUnwrapLinkAroundSelection_def Let_def split: if_splits)
  from le r have "?le \<noteq> - 1" by simp
  from js_indexOf_bounds [OF this] r le have t2: "sto tg + 2 \<le> int (length s)" by simp
  from ue le have ue': "js_indexOf s '')'' (sto tg + 2) \<noteq> - 1" by simp
  from js_indexOf_bounds [OF ue'] r t2
  have ub: "sto tg + 2 \<le> js_indexOf s '')'' (sto tg + 2)"
    "js_indexOf s '')'' (sto tg + 2) + 1 \<le> int (length s)" by simp_all
  have len: "int (length (js_slice s (sfrom tg) (sto tg))) = sto tg - sfrom tg"
    using r by (rule length_js_slice)
  from u f le ue' have req: "r = \<lparr>rtext = replaceRange s (sfrom tg - 1) (js_indexOf s '')'' (sto tg + 2) + 1)
                     (js_slice s (sfrom tg) (sto tg)),
         rselection = \<lparr>sfrom = sfrom tg - 1,
                       sto = sfrom tg - 1 + int (length (js_slice s (sfrom tg) (sto tg)))\<rparr>,
         rchanged = (replaceRange s (sfrom tg - 1) (js_indexOf s '')'' (sto tg + 2) + 1)
                     (js_slice s (sfrom tg) (sto tg)) \<noteq> s),
         rchange = Some \<lparr>cfrom = sfrom tg - 1, cto = js_indexOf s '')'' (sto tg + 2) + 1,
                         cinsert = js_slice s (sfrom tg) (sto tg)\<rparr>\<rparr>"
    by (simp add: tryUnwrapLinkAroundSelection_def Let_def split: if_splits)
  from f r ub len show ?thesis
    unfolding req by (simp add: wellFormedResult_def length_replaceRange)
qed

lemma formatLink_wf_aux:
  assumes tg: "resolveTargetSelection s sel p = tg"
    and r: "0 \<le> sfrom tg" "sfrom tg \<le> sto tg" "sto tg \<le> int (length s)"
  shows "wellFormedResult s (formatLink s sel p opts)"
proof (cases "tryUnwrapFullLink (js_slice s (sfrom tg) (sto tg))")
  case (Some lbl)
  with r show ?thesis
    by (simp add: formatLink_def tg Let_def wellFormedResult_def length_replaceRange)
next
  case None
  have len: "int (length (js_slice s (sfrom tg) (sto tg))) = sto tg - sfrom tg"
    using r by (rule length_js_slice)
  show ?thesis
  proof (cases "tryUnwrapLinkAroundSelection s tg")
    case (Some sr)
    from tryUnwrapLinkAroundSelection_wf [OF Some r] None Some show ?thesis
      by (simp add: formatLink_def tg Let_def)
  next
    case nn: None
    with None r len show ?thesis
      by (simp add: formatLink_def tg Let_def wellFormedResult_def length_replaceRange)
  qed
qed

lemma formatLink_wf: "wellFormedResult s (formatLink s sel p opts)"
  using resolveTargetSelection_range [of s sel p]
  by (intro formatLink_wf_aux [OF refl]) simp_all

lemma applyCommandToText_wellFormed:
  "wellFormedResult s (applyCommandToText s sel c p opts)"
  by (cases c) (simp_all add: applyCommandToText_def formatMarker_wf formatLink_wf)

lemma wordStart_run:
  "(\<forall>i. wordStart s f \<le> i \<and> i < f \<longrightarrow> isWordChar (js_charAt s i))
   \<and> \<not> isWordChar (js_charAt s (wordStart s f - 1))"
proof (induction s f rule: wordStart.induct)
  case (1 s f)
  show ?case
  proof (cases "f > 0 \<and> isWordChar (js_charAt s (f - 1))")
    case True
    then have e: "wordStart s f = wordStart s (f - 1)"
      by (simp add: wordStart.simps [of s f])
    from "1.IH" [OF True] True show ?thesis
      unfolding e
      by (metis less_le zle_diff1_eq)
  next
    case False
    then have e: "wordStart s f = f"
      by (auto simp: wordStart.simps [of s f])
    from False show ?thesis unfolding e
      by (auto simp: js_charAt_def isWordChar_def)
  qed
qed

lemma wordEnd_run:
  "(\<forall>i. t \<le> i \<and> i < wordEnd s t \<longrightarrow> isWordChar (js_charAt s i))
   \<and> \<not> isWordChar (js_charAt s (wordEnd s t))"
proof (induction s t rule: wordEnd.induct)
  case (1 s t)
  show ?case
  proof (cases "t < int (length s) \<and> isWordChar (js_charAt s t)")
    case True
    then have e: "wordEnd s t = wordEnd s (t + 1)"
      by (simp add: wordEnd.simps [of s t])
    have "\<And>i. t \<le> i \<Longrightarrow> i = t \<or> t + 1 \<le> i" by arith
    with "1.IH" [OF True] True show ?thesis
      unfolding e by blast
  next
    case False
    then have e: "wordEnd s t = t"
      by (auto simp: wordEnd.simps [of s t])
    from False show ?thesis unfolding e
      by (auto simp: js_charAt_def isWordChar_def)
  qed
qed

lemma isWordChar_in_range: "isWordChar (js_charAt s i) \<Longrightarrow> 0 \<le> i \<and> i < int (length s)"
  by (auto simp: js_charAt_def isWordChar_def split: if_splits)

lemma expandSelectionToWord_None:
  "expandSelectionToWord s pos = None \<longleftrightarrow>
     \<not> (isWordChar (js_charAt s (clamp pos 0 (int (length s))))
        \<or> isWordChar (js_charAt s (clamp pos 0 (int (length s)) - 1)))"
  by (auto simp: expandSelectionToWord_def Let_def dest: isWordChar_in_range)

lemma expandSelectionToWord_run:
  assumes "expandSelectionToWord s pos = Some w"
  shows "sfrom w \<le> clamp pos 0 (int (length s)) \<and> clamp pos 0 (int (length s)) \<le> sto w
         \<and> sfrom w < sto w
         \<and> (\<forall>i. sfrom w \<le> i \<and> i < sto w \<longrightarrow> isWordChar (js_charAt s i))
         \<and> \<not> isWordChar (js_charAt s (sfrom w - 1))
         \<and> \<not> isWordChar (js_charAt s (sto w))"
proof -
  let ?n = "int (length s)"
  let ?pv = "clamp pos 0 ?n"
  have pv: "0 \<le> ?pv" "?pv \<le> ?n" by (simp_all add: clamp_def)
  show ?thesis
  proof (cases "?pv < ?n \<and> isWordChar (js_charAt s ?pv)")
    case True
    with assms have w: "w = \<lparr>sfrom = wordStart s ?pv, sto = wordEnd s (?pv + 1)\<rparr>"
      by (auto simp: expandSelectionToWord_def Let_def split: if_splits)
    from True have "?pv + 1 \<le> ?n" by simp
    from wordEnd_bounds [OF this] wordStart_bounds [OF pv(1), of s]
    have b: "wordStart s ?pv \<le> ?pv" "?pv + 1 \<le> wordEnd s (?pv + 1)" by simp_all
    have "\<And>i. wordStart s ?pv \<le> i \<Longrightarrow> i < ?pv \<or> i = ?pv \<or> ?pv + 1 \<le> i" by arith
    with wordStart_run [of s ?pv] wordEnd_run [of "?pv + 1" s] True
    have "\<forall>i. wordStart s ?pv \<le> i \<and> i < wordEnd s (?pv + 1) \<longrightarrow> isWordChar (js_charAt s i)"
      by blast
    with b wordStart_run [of s ?pv] wordEnd_run [of "?pv + 1" s] show ?thesis
      unfolding w by simp
  next
    case False
    with assms have c: "?pv > 0" "isWordChar (js_charAt s (?pv - 1))"
      and w: "w = \<lparr>sfrom = wordStart s (?pv - 1), sto = wordEnd s ?pv\<rparr>"
      by (auto simp: expandSelectionToWord_def Let_def split: if_splits)
    from False have nw: "\<not> isWordChar (js_charAt s ?pv)"
      by (auto dest: isWordChar_in_range)
    then have e: "wordEnd s ?pv = ?pv"
      by (auto simp: wordEnd.simps [of s ?pv])
    from c have "0 \<le> ?pv - 1" by simp
    from wordStart_bounds [OF this, of s] have b: "wordStart s (?pv - 1) \<le> ?pv - 1" by simp
    have "\<And>i. i < ?pv \<Longrightarrow> i < ?pv - 1 \<or> i = ?pv - 1" by arith
    with wordStart_run [of s "?pv - 1"] c
    have "\<forall>i. wordStart s (?pv - 1) \<le> i \<and> i < ?pv \<longrightarrow> isWordChar (js_charAt s i)"
      by blast
    with b nw wordStart_run [of s "?pv - 1"] show ?thesis
      unfolding w e by simp
  qed
qed

text \<open>
  Claim C6. For a caret (empty) selection, under the policy \<open>word\<close> the target range is
  exactly the maximal run of word characters \<open>[A-Za-z0-9_]\<close> containing or adjacent to the
  (clamped) caret: it contains the caret, is non-empty, consists of word characters only and
  is bounded on both sides by a non-word character or an end of the text; when no word
  character is adjacent the caret stays empty. Under the policy \<open>markers\<close> the caret is
  never expanded.
\<close>

theorem resolveTargetSelection_caret_policy:
  assumes caret: "sfrom sel = sto sel"
  shows "(emptySelectionBehavior prefs = MarkersBehavior \<longrightarrow>
            resolveTargetSelection s sel prefs
              = \<lparr>sfrom = clamp (sfrom sel) 0 (int (length s)),
                 sto = clamp (sfrom sel) 0 (int (length s))\<rparr>)
         \<and> (emptySelectionBehavior prefs = WordBehavior \<longrightarrow>
              (if isWordChar (js_charAt s (clamp (sfrom sel) 0 (int (length s))))
                  \<or> isWordChar (js_charAt s (clamp (sfrom sel) 0 (int (length s)) - 1))
               then maximalWordRun s (clamp (sfrom sel) 0 (int (length s)))
                      (resolveTargetSelection s sel prefs)
               else resolveTargetSelection s sel prefs
                      = \<lparr>sfrom = clamp (sfrom sel) 0 (int (length s)),
                         sto = clamp (sfrom sel) 0 (int (length s))\<rparr>))"
proof -
  let ?p = "clamp (sfrom sel) 0 (int (length s))"
  have n: "normalizeSelection sel (int (length s)) = \<lparr>sfrom = ?p, sto = ?p\<rparr>"
    using caret by (simp add: normalizeSelection_def Let_def)
  have m: "emptySelectionBehavior prefs = MarkersBehavior \<Longrightarrow>
             resolveTargetSelection s sel prefs = \<lparr>sfrom = ?p, sto = ?p\<rparr>"
    by (simp add: resolveTargetSelection_def n)
  have w: "emptySelectionBehavior prefs = WordBehavior \<Longrightarrow>
             resolveTargetSelection s sel prefs
               = (case expandSelectionToWord s ?p of Some w \<Rightarrow> w
                  | None \<Rightarrow> \<lparr>sfrom = ?p, sto = ?p\<rparr>)"
    by (simp add: resolveTargetSelection_def n)
  have pp: "clamp ?p 0 (int (length s)) = ?p" by (simp add: clamp_def)
  show ?thesis
  proof (cases "expandSelectionToWord s ?p")
    case None
    with expandSelectionToWord_None [of s ?p] m w show ?thesis
      unfolding pp by simp
  next
    case (Some x)
    with expandSelectionToWord_None [of s ?p]
    have adj: "isWordChar (js_charAt s ?p) \<or> isWordChar (js_charAt s (?p - 1))"
      unfolding pp by simp
    from expandSelectionToWord_run [OF Some] m w Some adj show ?thesis
      unfolding pp maximalWordRun_def by simp
  qed
qed


theorem resolveTargetSelection_caret_policy_witness:
  "maximalWordRun ''A paragraph with text''
     (clamp (sfrom \<lparr>sfrom = 4, sto = 4\<rparr>) 0 (int (length ''A paragraph with text'')))
     (resolveTargetSelection ''A paragraph with text'' \<lparr>sfrom = 4, sto = 4\<rparr>
        \<lparr>emptySelectionBehavior = WordBehavior, italicDelimiter = Underscore\<rparr>)
   \<and> resolveTargetSelection ''A paragraph with text'' \<lparr>sfrom = 4, sto = 4\<rparr>
        \<lparr>emptySelectionBehavior = WordBehavior, italicDelimiter = Underscore\<rparr>
       = \<lparr>sfrom = 2, sto = 11\<rparr>"
proof -
  have h: "sfrom \<lparr>sfrom = 4, sto = 4\<rparr> = sto \<lparr>sfrom = 4, sto = 4\<rparr>" by simp
  have w: "emptySelectionBehavior
             \<lparr>emptySelectionBehavior = WordBehavior, italicDelimiter = Underscore\<rparr> = WordBehavior"
    by simp
  have adj: "isWordChar (js_charAt ''A paragraph with text''
               (clamp (sfrom \<lparr>sfrom = 4, sto = 4\<rparr>) 0 (int (length ''A paragraph with text''))))
             \<or> isWordChar (js_charAt ''A paragraph with text''
               (clamp (sfrom \<lparr>sfrom = 4, sto = 4\<rparr>) 0 (int (length ''A paragraph with text'')) - 1))"
    by code_simp
  have e: "resolveTargetSelection ''A paragraph with text'' \<lparr>sfrom = 4, sto = 4\<rparr>
             \<lparr>emptySelectionBehavior = WordBehavior, italicDelimiter = Underscore\<rparr>
           = \<lparr>sfrom = 2, sto = 11\<rparr>"
    by code_simp
  note t = resolveTargetSelection_caret_policy [OF h,
         of "\<lparr>emptySelectionBehavior = WordBehavior, italicDelimiter = Underscore\<rparr>"
            "''A paragraph with text''", THEN conjunct2, THEN mp, OF w]
  note u = t [unfolded if_P [OF adj]]
  from u e show ?thesis by (rule conjI)
qed

section \<open>Toggling a marker twice\<close>

lemma js_slice_mid:
  "js_slice (pre @ x @ post) (int (length pre)) (int (length pre) + int (length x)) = x"
  by (simp add: js_slice_def js_rel_def)

lemma replaceRange_mid:
  "replaceRange (pre @ x @ post) (int (length pre)) (int (length pre) + int (length x)) r
     = pre @ r @ post"
  by (simp add: replaceRange_def js_slice_def js_slice_from_def js_rel_def)

lemma js_slice_before:
  "length m \<le> length pre \<Longrightarrow>
     js_slice (pre @ rest) (int (length pre) - int (length m)) (int (length pre))
       = drop (length pre - length m) pre"
  by (simp add: js_slice_def js_rel_def nat_diff_distrib)

lemma js_slice_after:
  "length m \<le> length post \<Longrightarrow>
     js_slice (pre @ x @ post) (int (length pre) + int (length x))
        (int (length pre) + int (length x) + int (length m))
       = take (length m) post"
  by (simp add: js_slice_def js_rel_def nat_add_distrib)

lemma js_charAt_before:
  "js_charAt (pre @ rest) (int (length pre) - int k - 1)
     = (if Suc k \<le> length pre then Some (pre ! (length pre - k - 1)) else None)"
  by (auto simp: js_charAt_def nth_append nat_diff_distrib)

lemma js_charAt_after:
  "js_charAt (pre @ x @ post) (int (length pre) + int (length x) + int k)
     = (if k < length post then Some (post ! k) else None)"
  by (auto simp: js_charAt_def nth_append nat_add_distrib)

lemma hasSurroundingMarkers_append:
  "hasSurroundingMarkers (pre @ x @ post) (int (length pre)) (int (length pre) + int (length x)) m
     \<longleftrightarrow> (length m \<le> length pre \<and> length m \<le> length post
          \<and> drop (length pre - length m) pre = m \<and> take (length m) post = m
          \<and> \<not> (length m = 1
                \<and> ((2 \<le> length pre \<and> pre ! (length pre - 2) = hd m)
                    \<or> (2 \<le> length post \<and> post ! 1 = hd m))))"
proof (cases "length m \<le> length pre \<and> length m \<le> length post")
  case False
  then show ?thesis by (auto simp: hasSurroundingMarkers_def Let_def)
next
  case True
  then have a: "js_slice (pre @ x @ post) (int (length pre) - int (length m)) (int (length pre))
                  = drop (length pre - length m) pre"
    and b: "js_slice (pre @ x @ post) (int (length pre) + int (length x))
              (int (length pre) + int (length x) + int (length m)) = take (length m) post"
    by (simp_all add: js_slice_before js_slice_after)
  have c: "js_charAt (pre @ x @ post) (int (length pre) - int (length m) - 1)
             = (if Suc (length m) \<le> length pre then Some (pre ! (length pre - length m - 1)) else None)"
    by (rule js_charAt_before)
  have d: "js_charAt (pre @ x @ post) (int (length pre) + int (length x) + int (length m))
             = (if length m < length post then Some (post ! length m) else None)"
    by (rule js_charAt_after)
  from True show ?thesis
    unfolding hasSurroundingMarkers_def Let_def a b c d
    by (auto simp: numeral_2_eq_2)
qed

lemma resolveTargetSelection_nonempty:
  "0 \<le> f \<Longrightarrow> f < t \<Longrightarrow> t \<le> int (length s) \<Longrightarrow>
     resolveTargetSelection s \<lparr>sfrom = f, sto = t\<rparr> p = \<lparr>sfrom = f, sto = t\<rparr>"
  by (simp add: resolveTargetSelection_def normalizeSelection_def clamp_def Let_def)

lemma resolveTargetSelection_mid:
  "x \<noteq> [] \<Longrightarrow>
     resolveTargetSelection (pre @ x @ post)
        \<lparr>sfrom = int (length pre), sto = int (length pre) + int (length x)\<rparr> p
       = \<lparr>sfrom = int (length pre), sto = int (length pre) + int (length x)\<rparr>"
  by (rule resolveTargetSelection_nonempty) simp_all

lemma isWrappedSelection_decomp:
  assumes "isWrappedSelection x m"
  shows "x = m @ take (length x - 2 * length m) (drop (length m) x) @ m"
    and "js_slice x (int (length m)) (int (length x) - int (length m))
           = take (length x - 2 * length m) (drop (length m) x)"
proof -
  from assms have l: "2 * length m \<le> length x" and a: "take (length m) x = m"
    and b: "drop (length x - length m) x = m"
    by (auto simp: isWrappedSelection_def startsWith_def endsWith_def split: if_splits)
  have "drop (length m) x = take (length x - 2 * length m) (drop (length m) x)
          @ drop (length x - 2 * length m) (drop (length m) x)"
    by (rule append_take_drop_id [symmetric])
  also have "drop (length x - 2 * length m) (drop (length m) x) = drop (length x - length m) x"
    using l by simp
  finally have "drop (length m) x = take (length x - 2 * length m) (drop (length m) x) @ m"
    using b by simp
  with a have "take (length m) x @ drop (length m) x
                 = m @ take (length x - 2 * length m) (drop (length m) x) @ m"
    by simp
  then show "x = m @ take (length x - 2 * length m) (drop (length m) x) @ m" by simp
  from l show "js_slice x (int (length m)) (int (length x) - int (length m))
           = take (length x - 2 * length m) (drop (length m) x)"
    by (subst js_slice_in_range) (auto simp: nat_diff_distrib nat_mult_distrib)
qed

lemma formatMarker_mid_wrapped:
  assumes "x \<noteq> []" "isWrappedSelection x m"
  shows "rtext (formatMarker (pre @ x @ post)
                 \<lparr>sfrom = int (length pre), sto = int (length pre) + int (length x)\<rparr> m p)
           = pre @ take (length x - 2 * length m) (drop (length m) x) @ post"
    and "rselection (formatMarker (pre @ x @ post)
                 \<lparr>sfrom = int (length pre), sto = int (length pre) + int (length x)\<rparr> m p)
           = \<lparr>sfrom = int (length pre),
              sto = int (length pre) + int (length (take (length x - 2 * length m) (drop (length m) x)))\<rparr>"
  using assms
  by (simp_all add: formatMarker_def resolveTargetSelection_mid js_slice_mid replaceRange_mid
        isWrappedSelection_decomp(2) Let_def)

lemma formatMarker_mid_surrounded:
  assumes "x \<noteq> []" "\<not> isWrappedSelection x m"
    "hasSurroundingMarkers (pre @ x @ post) (int (length pre)) (int (length pre) + int (length x)) m"
  shows "rtext (formatMarker (pre @ x @ post)
                 \<lparr>sfrom = int (length pre), sto = int (length pre) + int (length x)\<rparr> m p)
           = take (length pre - length m) pre @ x @ drop (length m) post"
    and "rselection (formatMarker (pre @ x @ post)
                 \<lparr>sfrom = int (length pre), sto = int (length pre) + int (length x)\<rparr> m p)
           = \<lparr>sfrom = int (length pre) - int (length m),
              sto = int (length pre) - int (length m) + int (length x)\<rparr>"
proof -
  from assms(3) have l: "length m \<le> length pre" "length m \<le> length post"
    by (simp_all add: hasSurroundingMarkers_append)
  have "replaceRange (pre @ x @ post) (int (length pre) - int (length m))
           (int (length pre) + int (length x) + int (length m)) x
          = take (length pre - length m) pre @ x @ drop (length m) post"
    using l by (simp add: replaceRange_def js_slice_def js_slice_from_def js_rel_def
                  nat_diff_distrib nat_add_distrib)
  with assms show "rtext (formatMarker (pre @ x @ post)
                 \<lparr>sfrom = int (length pre), sto = int (length pre) + int (length x)\<rparr> m p)
           = take (length pre - length m) pre @ x @ drop (length m) post"
    by (simp add: formatMarker_def resolveTargetSelection_mid js_slice_mid Let_def)
  from assms show "rselection (formatMarker (pre @ x @ post)
                 \<lparr>sfrom = int (length pre), sto = int (length pre) + int (length x)\<rparr> m p)
           = \<lparr>sfrom = int (length pre) - int (length m),
              sto = int (length pre) - int (length m) + int (length x)\<rparr>"
    by (simp add: formatMarker_def resolveTargetSelection_mid js_slice_mid Let_def)
qed

lemma formatMarker_mid_wrap:
  assumes "x \<noteq> []" "\<not> isWrappedSelection x m"
    "\<not> hasSurroundingMarkers (pre @ x @ post) (int (length pre)) (int (length pre) + int (length x)) m"
  shows "rtext (formatMarker (pre @ x @ post)
                 \<lparr>sfrom = int (length pre), sto = int (length pre) + int (length x)\<rparr> m p)
           = pre @ m @ x @ m @ post"
    and "rselection (formatMarker (pre @ x @ post)
                 \<lparr>sfrom = int (length pre), sto = int (length pre) + int (length x)\<rparr> m p)
           = \<lparr>sfrom = int (length pre) + int (length m),
              sto = int (length pre) + int (length x) + int (length m)\<rparr>"
  using assms
  by (simp_all add: formatMarker_def resolveTargetSelection_mid js_slice_mid replaceRange_mid Let_def)

lemma round_trip_wrap_first:
  assumes x: "x \<noteq> []" and nw: "\<not> isWrappedSelection x m"
    and ns: "\<not> hasSurroundingMarkers (pre @ x @ post) (int (length pre))
                  (int (length pre) + int (length x)) m"
    and adj: "\<not> (length m = 1
              \<and> (js_charAt (pre @ x @ post) (int (length pre) - 1) = Some (hd m)
                  \<or> js_charAt (pre @ x @ post) (int (length pre) + int (length x)) = Some (hd m)))"
  shows "rtext (formatMarker
            (rtext (formatMarker (pre @ x @ post)
                      \<lparr>sfrom = int (length pre), sto = int (length pre) + int (length x)\<rparr> m p))
            (rselection (formatMarker (pre @ x @ post)
                      \<lparr>sfrom = int (length pre), sto = int (length pre) + int (length x)\<rparr> m p))
            m p) = pre @ x @ post"
proof -
  have t1: "rtext (formatMarker (pre @ x @ post)
                      \<lparr>sfrom = int (length pre), sto = int (length pre) + int (length x)\<rparr> m p)
              = (pre @ m) @ x @ (m @ post)"
    using formatMarker_mid_wrap(1) [OF x nw ns] by simp
  have s1: "rselection (formatMarker (pre @ x @ post)
                      \<lparr>sfrom = int (length pre), sto = int (length pre) + int (length x)\<rparr> m p)
              = \<lparr>sfrom = int (length (pre @ m)), sto = int (length (pre @ m)) + int (length x)\<rparr>"
    using formatMarker_mid_wrap(2) [OF x nw ns] by simp
  have c1: "js_charAt (pre @ x @ post) (int (length pre) - int 0 - 1)
             = (if Suc 0 \<le> length pre then Some (pre ! (length pre - 0 - 1)) else None)"
    by (rule js_charAt_before)
  have c2: "js_charAt (pre @ x @ post) (int (length pre) + int (length x) + int 0)
             = (if 0 < length post then Some (post ! 0) else None)"
    by (rule js_charAt_after)
  from adj c1 c2 have adj': "length m = 1 \<Longrightarrow>
      (1 \<le> length pre \<longrightarrow> pre ! (length pre - 1) \<noteq> hd m)
      \<and> (0 < length post \<longrightarrow> post ! 0 \<noteq> hd m)"
    by (auto split: if_splits)
  have hs: "hasSurroundingMarkers ((pre @ m) @ x @ (m @ post)) (int (length (pre @ m)))
              (int (length (pre @ m)) + int (length x)) m"
    unfolding hasSurroundingMarkers_append
    using adj' by (auto simp: nth_append numeral_2_eq_2)
  have "rtext (formatMarker ((pre @ m) @ x @ (m @ post))
                 \<lparr>sfrom = int (length (pre @ m)), sto = int (length (pre @ m)) + int (length x)\<rparr> m p)
          = take (length (pre @ m) - length m) (pre @ m) @ x @ drop (length m) (m @ post)"
    by (rule formatMarker_mid_surrounded(1) [OF x nw hs])
  then show ?thesis unfolding t1 s1 by simp
qed

lemma round_trip_wrapped_first:
  assumes x: "x \<noteq> []" and w: "isWrappedSelection x m"
    and inner: "2 * length m < length x"
    and nwi: "\<not> isWrappedSelection (take (length x - 2 * length m) (drop (length m) x)) m"
    and ns: "\<not> hasSurroundingMarkers (pre @ x @ post) (int (length pre))
                  (int (length pre) + int (length x)) m"
  shows "rtext (formatMarker
            (rtext (formatMarker (pre @ x @ post)
                      \<lparr>sfrom = int (length pre), sto = int (length pre) + int (length x)\<rparr> m p))
            (rselection (formatMarker (pre @ x @ post)
                      \<lparr>sfrom = int (length pre), sto = int (length pre) + int (length x)\<rparr> m p))
            m p) = pre @ x @ post"
proof -
  let ?i = "take (length x - 2 * length m) (drop (length m) x)"
  from inner have i: "?i \<noteq> []" by auto
  from ns have ns': "\<not> hasSurroundingMarkers (pre @ ?i @ post) (int (length pre))
                  (int (length pre) + int (length ?i)) m"
    unfolding hasSurroundingMarkers_append .
  have "rtext (formatMarker (pre @ ?i @ post)
                 \<lparr>sfrom = int (length pre), sto = int (length pre) + int (length ?i)\<rparr> m p)
          = pre @ m @ ?i @ m @ post"
    by (rule formatMarker_mid_wrap(1) [OF i nwi ns'])
  also have "\<dots> = pre @ x @ post"
    using isWrappedSelection_decomp(1) [OF w] by simp
  finally show ?thesis
    unfolding formatMarker_mid_wrapped [OF x w] .
qed

lemma round_trip_surrounded_first:
  assumes x: "x \<noteq> []" and nw: "\<not> isWrappedSelection x m"
    and hs: "hasSurroundingMarkers (pre @ x @ post) (int (length pre))
                  (int (length pre) + int (length x)) m"
    and ns: "\<not> hasSurroundingMarkers (pre @ x @ post) (int (length pre) - int (length m))
                  (int (length pre) + int (length x) + int (length m)) m"
  shows "rtext (formatMarker
            (rtext (formatMarker (pre @ x @ post)
                      \<lparr>sfrom = int (length pre), sto = int (length pre) + int (length x)\<rparr> m p))
            (rselection (formatMarker (pre @ x @ post)
                      \<lparr>sfrom = int (length pre), sto = int (length pre) + int (length x)\<rparr> m p))
            m p) = pre @ x @ post"
proof -
  let ?pre = "take (length pre - length m) pre"
  let ?post = "drop (length m) post"
  from hs have l: "length m \<le> length pre" "length m \<le> length post"
    and pm: "drop (length pre - length m) pre = m" and qm: "take (length m) post = m"
    by (simp_all add: hasSurroundingMarkers_append)
  have pre: "pre = ?pre @ m" using pm append_take_drop_id [of "length pre - length m" pre] by simp
  have post: "post = m @ ?post" using qm append_take_drop_id [of "length m" post] by simp
  have lp: "int (length ?pre) = int (length pre) - int (length m)" using l by simp
  have whole: "pre @ x @ post = ?pre @ (m @ x @ m) @ ?post"
    using pre post by (metis append.assoc)
  have lx: "int (length pre) + int (length x) + int (length m)
              = int (length ?pre) + int (length (m @ x @ m))"
    using l by simp
  from ns have "\<not> hasSurroundingMarkers (?pre @ (m @ x @ m) @ ?post) (int (length ?pre))
                  (int (length ?pre) + int (length (m @ x @ m))) m"
    unfolding lp [symmetric] lx whole [symmetric] by (simp add: whole [symmetric])
  then have ns': "\<not> hasSurroundingMarkers (?pre @ x @ ?post) (int (length ?pre))
                  (int (length ?pre) + int (length x)) m"
    unfolding hasSurroundingMarkers_append .
  have "rtext (formatMarker (?pre @ x @ ?post)
                 \<lparr>sfrom = int (length ?pre), sto = int (length ?pre) + int (length x)\<rparr> m p)
          = ?pre @ m @ x @ m @ ?post"
    by (rule formatMarker_mid_wrap(1) [OF x nw ns'])
  also have "\<dots> = pre @ x @ post" using whole by simp
  finally show ?thesis
    unfolding formatMarker_mid_surrounded [OF x nw hs] lp .
qed

lemma applyCommandToText_marker:
  "command \<noteq> Link \<Longrightarrow>
     applyCommandToText s sel command p opts = formatMarker s sel (commandMarker command p) p"
  by (cases command) (simp_all add: applyCommandToText_def commandMarker_def)

lemma split_at_selection:
  assumes "0 \<le> f" "f \<le> t" "t \<le> int (length s)"
  shows "s = take (nat f) s @ js_slice s f t @ drop (nat t) s"
    and "int (length (take (nat f) s)) = f"
    and "int (length (js_slice s f t)) = t - f"
proof -
  have a: "js_slice s f t = take (nat (t - f)) (drop (nat f) s)"
    using assms by (rule js_slice_in_range)
  have "drop (nat f) s = take (nat (t - f)) (drop (nat f) s) @ drop (nat (t - f)) (drop (nat f) s)"
    by (rule append_take_drop_id [symmetric])
  also have "drop (nat (t - f)) (drop (nat f) s) = drop (nat t) s"
    using assms by (simp add: nat_diff_distrib)
  finally have "take (nat f) s @ drop (nat f) s
                  = take (nat f) s @ take (nat (t - f)) (drop (nat f) s) @ drop (nat t) s"
    by simp
  then show "s = take (nat f) s @ js_slice s f t @ drop (nat t) s"
    unfolding a by simp
  show "int (length (take (nat f) s)) = f" using assms by simp
  show "int (length (js_slice s f t)) = t - f" using assms by (rule length_js_slice)
qed

text \<open>
  Claim C3, as amended. For every text, every selection that is non-empty after
  normalization and every command in \<open>{bold, italic, strikethrough}\<close> with marker \<open>m\<close>,
  applying the command twice, the second time to the resulting text with the resulting
  selection, yields the original text whenever \<open>togglesBack\<close> holds: (a) the selected
  text is neither wrapped by \<open>m\<close> nor immediately surrounded by \<open>m\<close>, and \<open>m\<close> has two
  characters or neither character next to the selection is the one-character marker;
  (b) the selected text is wrapped by \<open>m\<close>, its inner text is non-empty and not itself
  wrapped, and the selection is not also surrounded by \<open>m\<close>; (c) the selection is
  surrounded by \<open>m\<close>, not wrapped, and the widened span is not again surrounded by \<open>m\<close>.
\<close>

theorem applyCommandToText_round_trip:
  assumes cmd: "command \<noteq> Link"
    and n: "normalizeSelection sel (int (length s)) = \<lparr>sfrom = f, sto = t\<rparr>"
    and ne: "f < t"
    and tb: "togglesBack s f t (commandMarker command p)"
  shows "rtext (applyCommandToText (rtext (applyCommandToText s sel command p opts))
                  (rselection (applyCommandToText s sel command p opts)) command p opts) = s"
proof -
  let ?m = "commandMarker command p"
  let ?pre = "take (nat f) s"
  let ?x = "js_slice s f t"
  let ?post = "drop (nat t) s"
  from normalizeSelection_range [of "int (length s)" sel] n
  have r: "0 \<le> f" "f \<le> t" "t \<le> int (length s)" by simp_all
  note sp = split_at_selection [OF r]
  have x: "?x \<noteq> []" using sp(3) ne by auto
  have S: "?pre @ ?x @ ?post = s" using sp(1) by simp
  note F = sp(2) and X = sp(3)
  have ft: "\<lparr>sfrom = f, sto = t\<rparr>
              = \<lparr>sfrom = int (length ?pre), sto = int (length ?pre) + int (length ?x)\<rparr>"
    unfolding sp(2) sp(3) by simp
  have "normalizeSelection sel (int (length s))
          = normalizeSelection \<lparr>sfrom = f, sto = t\<rparr> (int (length s))"
    using normalizeSelection_idem [of "int (length s)" sel] n by simp
  then have "formatMarker s sel ?m p = formatMarker s \<lparr>sfrom = f, sto = t\<rparr> ?m p"
    by (intro formatMarker_cong resolveTargetSelection_cong)
  then have first: "formatMarker s sel ?m p
          = formatMarker s
              \<lparr>sfrom = int (length ?pre), sto = int (length ?pre) + int (length ?x)\<rparr> ?m p"
    unfolding ft [symmetric] .
  have goal: "rtext (formatMarker
            (rtext (formatMarker (?pre @ ?x @ ?post)
                      \<lparr>sfrom = int (length ?pre), sto = int (length ?pre) + int (length ?x)\<rparr> ?m p))
            (rselection (formatMarker (?pre @ ?x @ ?post)
                      \<lparr>sfrom = int (length ?pre), sto = int (length ?pre) + int (length ?x)\<rparr> ?m p))
            ?m p) = ?pre @ ?x @ ?post"
  proof (cases "isWrappedSelection ?x ?m")
    case True
    with tb have a: "2 * int (length ?m) < t - f"
      and b: "\<not> isWrappedSelection (js_slice ?x (int (length ?m)) (int (length ?x) - int (length ?m))) ?m"
      and c: "\<not> hasSurroundingMarkers s f t ?m"
      by (simp_all add: togglesBack_def Let_def)
    from a sp(3) have a': "2 * length ?m < length ?x" by linarith
    from b have b': "\<not> isWrappedSelection
                        (take (length ?x - 2 * length ?m) (drop (length ?m) ?x)) ?m"
      unfolding isWrappedSelection_decomp(2) [OF True] .
    from c have c': "\<not> hasSurroundingMarkers (?pre @ ?x @ ?post) (int (length ?pre))
                        (int (length ?pre) + int (length ?x)) ?m"
      unfolding S F X by simp
    show ?thesis by (rule round_trip_wrapped_first [OF x True a' b' c'])
  next
    case nw: False
    show ?thesis
    proof (cases "hasSurroundingMarkers s f t ?m")
      case True
      with nw tb have c: "\<not> hasSurroundingMarkers s (f - int (length ?m)) (t + int (length ?m)) ?m"
        by (simp add: togglesBack_def Let_def)
      from True have hs: "hasSurroundingMarkers (?pre @ ?x @ ?post) (int (length ?pre))
                        (int (length ?pre) + int (length ?x)) ?m"
        unfolding S F X by simp
      from c have c': "\<not> hasSurroundingMarkers (?pre @ ?x @ ?post)
                        (int (length ?pre) - int (length ?m))
                        (int (length ?pre) + int (length ?x) + int (length ?m)) ?m"
        unfolding S F X by simp
      show ?thesis by (rule round_trip_surrounded_first [OF x nw hs c'])
    next
      case False
      with nw tb have c: "\<not> (length ?m = 1
              \<and> (js_charAt s (f - 1) = Some (hd ?m) \<or> js_charAt s t = Some (hd ?m)))"
        by (simp add: togglesBack_def Let_def)
      from False have ns: "\<not> hasSurroundingMarkers (?pre @ ?x @ ?post) (int (length ?pre))
                        (int (length ?pre) + int (length ?x)) ?m"
        unfolding S F X by simp
      from c have c': "\<not> (length ?m = 1
              \<and> (js_charAt (?pre @ ?x @ ?post) (int (length ?pre) - 1) = Some (hd ?m)
                  \<or> js_charAt (?pre @ ?x @ ?post) (int (length ?pre) + int (length ?x)) = Some (hd ?m)))"
        unfolding S F X by simp
      show ?thesis by (rule round_trip_wrap_first [OF x nw ns c'])
    qed
  qed
  from goal show ?thesis
    unfolding applyCommandToText_marker [OF cmd] first S .
qed

theorem applyCommandToText_round_trip_witness:
  "rtext (applyCommandToText ''strike this text'' \<lparr>sfrom = 0, sto = 6\<rparr> Strikethrough
       \<lparr>emptySelectionBehavior = WordBehavior, italicDelimiter = Underscore\<rparr>
       \<lparr>linkUrl = None, linkText = None\<rparr>) = ''~~strike~~ this text''
   \<and> rtext (applyCommandToText
        (rtext (applyCommandToText ''strike this text'' \<lparr>sfrom = 0, sto = 6\<rparr> Strikethrough
           \<lparr>emptySelectionBehavior = WordBehavior, italicDelimiter = Underscore\<rparr>
           \<lparr>linkUrl = None, linkText = None\<rparr>))
        (rselection (applyCommandToText ''strike this text'' \<lparr>sfrom = 0, sto = 6\<rparr> Strikethrough
           \<lparr>emptySelectionBehavior = WordBehavior, italicDelimiter = Underscore\<rparr>
           \<lparr>linkUrl = None, linkText = None\<rparr>))
        Strikethrough
        \<lparr>emptySelectionBehavior = WordBehavior, italicDelimiter = Underscore\<rparr>
        \<lparr>linkUrl = None, linkText = None\<rparr>) = ''strike this text''"
proof -
  have c: "Strikethrough \<noteq> Link" by simp
  have n: "normalizeSelection \<lparr>sfrom = 0, sto = 6\<rparr> (int (length ''strike this text''))
             = \<lparr>sfrom = 0, sto = 6\<rparr>"
    by (simp add: normalizeSelection_def clamp_def)
  have ne: "(0::int) < 6" by simp
  have tb: "togglesBack ''strike this text'' 0 6
              (commandMarker Strikethrough
                 \<lparr>emptySelectionBehavior = WordBehavior, italicDelimiter = Underscore\<rparr>)"
    by code_simp
  have first: "rtext (applyCommandToText ''strike this text'' \<lparr>sfrom = 0, sto = 6\<rparr> Strikethrough
       \<lparr>emptySelectionBehavior = WordBehavior, italicDelimiter = Underscore\<rparr>
       \<lparr>linkUrl = None, linkText = None\<rparr>) = ''~~strike~~ this text''"
    by code_simp
  from first applyCommandToText_round_trip [OF c n ne tb, of "\<lparr>linkUrl = None, linkText = None\<rparr>"]
  show ?thesis by (rule conjI)
qed

text \<open>
  Claim C3 as stated fails. Italic on the \<open>a\<close> of \<open>_a\<close> wraps to \<open>__a_\<close>; the second
  application sees a doubled marker before the selection, does not unwrap, and wraps again.
  Bold on the whole of \<open>********\<close> unwraps twice.
\<close>

theorem applyCommandToText_round_trip_counterexample:
  "rtext (applyCommandToText
        (rtext (applyCommandToText ''_a'' \<lparr>sfrom = 1, sto = 2\<rparr> Italic
           \<lparr>emptySelectionBehavior = WordBehavior, italicDelimiter = Underscore\<rparr>
           \<lparr>linkUrl = None, linkText = None\<rparr>))
        (rselection (applyCommandToText ''_a'' \<lparr>sfrom = 1, sto = 2\<rparr> Italic
           \<lparr>emptySelectionBehavior = WordBehavior, italicDelimiter = Underscore\<rparr>
           \<lparr>linkUrl = None, linkText = None\<rparr>))
        Italic
        \<lparr>emptySelectionBehavior = WordBehavior, italicDelimiter = Underscore\<rparr>
        \<lparr>linkUrl = None, linkText = None\<rparr>) = ''___a__''
   \<and> ''___a__'' \<noteq> ''_a''
   \<and> rtext (applyCommandToText
        (rtext (applyCommandToText ''********'' \<lparr>sfrom = 0, sto = 8\<rparr> Bold
           \<lparr>emptySelectionBehavior = WordBehavior, italicDelimiter = Underscore\<rparr>
           \<lparr>linkUrl = None, linkText = None\<rparr>))
        (rselection (applyCommandToText ''********'' \<lparr>sfrom = 0, sto = 8\<rparr> Bold
           \<lparr>emptySelectionBehavior = WordBehavior, italicDelimiter = Underscore\<rparr>
           \<lparr>linkUrl = None, linkText = None\<rparr>))
        Bold
        \<lparr>emptySelectionBehavior = WordBehavior, italicDelimiter = Underscore\<rparr>
        \<lparr>linkUrl = None, linkText = None\<rparr>) = []
   \<and> [] \<noteq> ''********''"
  by code_simp

section \<open>Properties of the Multi-Range Formatting Orchestrator\<close>

lemma formatMarker_resizes_aux:
  assumes tg: "resolveTargetSelection s sel p = tg"
    and r: "0 \<le> sfrom tg" "sfrom tg \<le> sto tg" "sto tg \<le> int (length s)"
    and m: "m \<noteq> []"
  shows "\<exists>c. rchange (formatMarker s sel m p) = Some c
             \<and> int (length (cinsert c)) \<noteq> cto c - cfrom c"
proof -
  have len: "int (length (js_slice s (sfrom tg) (sto tg))) = sto tg - sfrom tg"
    using r by (rule length_js_slice)
  from m have k: "0 < int (length m)" by simp
  show ?thesis
  proof (cases "sfrom tg = sto tg")
    case True
    with k show ?thesis by (simp add: formatMarker_def tg Let_def)
  next
    case ne: False
    show ?thesis
    proof (cases "isWrappedSelection (js_slice s (sfrom tg) (sto tg)) m")
      case True
      then have k2: "2 * int (length m) \<le> sto tg - sfrom tg"
        using len by (auto simp: isWrappedSelection_def split: if_splits)
      have "int (length (js_slice (js_slice s (sfrom tg) (sto tg)) (int (length m))
                (int (length (js_slice s (sfrom tg) (sto tg))) - int (length m))))
            = sto tg - sfrom tg - 2 * int (length m)"
        using k2 len by (subst length_js_slice) auto
      with True ne k show ?thesis by (simp add: formatMarker_def tg Let_def)
    next
      case nw: False
      show ?thesis
      proof (cases "hasSurroundingMarkers s (sfrom tg) (sto tg) m")
        case True
        with nw ne len k show ?thesis by (simp add: formatMarker_def tg Let_def)
      next
        case False
        with nw ne len k show ?thesis by (simp add: formatMarker_def tg Let_def)
      qed
    qed
  qed
qed

lemma formatMarker_resizes:
  "m \<noteq> [] \<Longrightarrow> \<exists>c. rchange (formatMarker s sel m p) = Some c
             \<and> int (length (cinsert c)) \<noteq> cto c - cfrom c"
  using resolveTargetSelection_range [of s sel p]
  by (intro formatMarker_resizes_aux [OF refl]) simp_all

lemma tryUnwrapFullLink_shorter:
  "tryUnwrapFullLink x = Some lbl \<Longrightarrow> length lbl < length x"
proof -
  assume a: "tryUnwrapFullLink x = Some lbl"
  then obtain c rest where x: "x = c # rest" and l: "lbl = takeWhile (\<lambda>y. y \<noteq> CHR '']'') rest"
    by (auto simp: tryUnwrapFullLink_def Let_def split: list.splits if_splits)
  have "length (takeWhile (\<lambda>y. y \<noteq> CHR '']'') rest) \<le> length rest"
    by (rule length_takeWhile_le)
  with x l show ?thesis by simp
qed

lemma tryUnwrapLinkAroundSelection_resizes:
  assumes u: "tryUnwrapLinkAroundSelection s tg = Some r"
    and r: "0 \<le> sfrom tg" "sfrom tg \<le> sto tg" "sto tg \<le> int (length s)"
  shows "\<exists>c. rchange r = Some c \<and> int (length (cinsert c)) \<noteq> cto c - cfrom c"
proof -
  let ?le = "js_indexOf s '']('' (sto tg)"
  let ?ue = "js_indexOf s '')'' (?le + 2)"
  from u have f: "sfrom tg \<noteq> 0" and le: "?le = sto tg" and ue: "?ue \<noteq> - 1"
    by (auto simp: tryUnwrapLinkAroundSelection_def Let_def split: if_splits)
  from le r have "?le \<noteq> - 1" by simp
  from js_indexOf_bounds [OF this] r le have t2: "sto tg + 2 \<le> int (length s)" by simp
  from ue le have ue': "js_indexOf s '')'' (sto tg + 2) \<noteq> - 1" by simp
  from js_indexOf_bounds [OF ue'] r t2
  have ub: "sto tg + 2 \<le> js_indexOf s '')'' (sto tg + 2)" by simp
  have len: "int (length (js_slice s (sfrom tg) (sto tg))) = sto tg - sfrom tg"
    using r by (rule length_js_slice)
  from u f le ue' have "rchange r = Some \<lparr>cfrom = sfrom tg - 1, cto = js_indexOf s '')'' (sto tg + 2) + 1,
                         cinsert = js_slice s (sfrom tg) (sto tg)\<rparr>"
    by (auto simp add: tryUnwrapLinkAroundSelection_def Let_def split: if_splits)
  with ub len show ?thesis by simp
qed

lemma formatLink_resizes_aux:
  assumes tg: "resolveTargetSelection s sel p = tg"
    and r: "0 \<le> sfrom tg" "sfrom tg \<le> sto tg" "sto tg \<le> int (length s)"
  shows "\<exists>c. rchange (formatLink s sel p opts) = Some c
             \<and> int (length (cinsert c)) \<noteq> cto c - cfrom c"
proof -
  have len: "int (length (js_slice s (sfrom tg) (sto tg))) = sto tg - sfrom tg"
    using r by (rule length_js_slice)
  show ?thesis
  proof (cases "tryUnwrapFullLink (js_slice s (sfrom tg) (sto tg))")
    case (Some lbl)
    from tryUnwrapFullLink_shorter [OF Some] len
    have "int (length lbl) \<noteq> sto tg - sfrom tg" by linarith
    with Some show ?thesis by (simp add: formatLink_def tg Let_def)
  next
    case None
    show ?thesis
    proof (cases "tryUnwrapLinkAroundSelection s tg")
      case (Some sr)
      from tryUnwrapLinkAroundSelection_resizes [OF Some r] None Some show ?thesis
        by (simp add: formatLink_def tg Let_def)
    next
      case nn: None
      with None len show ?thesis
        by (simp add: formatLink_def tg Let_def)
    qed
  qed
qed

lemma formatLink_resizes:
  "\<exists>c. rchange (formatLink s sel p opts) = Some c
             \<and> int (length (cinsert c)) \<noteq> cto c - cfrom c"
  using resolveTargetSelection_range [of s sel p]
  by (intro formatLink_resizes_aux [OF refl]) simp_all

lemma applyCommandToText_resizes:
  "\<exists>c. rchange (applyCommandToText s sel command p opts) = Some c
             \<and> int (length (cinsert c)) \<noteq> cto c - cfrom c"
  by (cases command)
     (simp_all add: applyCommandToText_def italicMarker_def formatMarker_resizes formatLink_resizes)

lemma applyCommandToText_always_changes:
  "rchanged (applyCommandToText s sel command p opts)
   \<and> (\<exists>c. rchange (applyCommandToText s sel command p opts) = Some c
            \<and> validChange c (int (length s)))"
proof -
  let ?r = "applyCommandToText s sel command p opts"
  from applyCommandToText_resizes [of s sel command p opts]
  obtain c where c: "rchange ?r = Some c" "int (length (cinsert c)) \<noteq> cto c - cfrom c"
    by blast
  have wf: "wellFormedResult s ?r"
    by (rule applyCommandToText_wellFormed)
  with c have v: "0 \<le> cfrom c" "cfrom c \<le> cto c" "cto c \<le> int (length s)"
    and t: "rtext ?r = replaceRange s (cfrom c) (cto c) (cinsert c)"
    and ch: "rchanged ?r = (rtext ?r \<noteq> s)"
    by (simp_all add: wellFormedResult_def)
  from length_replaceRange [OF v, of "cinsert c"] c(2) t
  have "length (rtext ?r) \<noteq> length s" by auto
  then have "rtext ?r \<noteq> s" by auto
  with ch c v show ?thesis by (simp add: validChange_def)
qed

subsection \<open>The engine on arbitrary integer offsets\<close>

lemma normalizeSelection_explicit:
  "normalizeSelection sel n
     = \<lparr>sfrom = min (max 0 (min n (sfrom sel))) (max 0 (min n (sto sel))),
        sto = max (max 0 (min n (sfrom sel))) (max 0 (min n (sto sel)))\<rparr>"
  by (simp add: normalizeSelection_def clamp_def Let_def min_def max_def)

lemma normalizeSelection_in_range:
  "0 \<le> a \<Longrightarrow> a \<le> b \<Longrightarrow> b \<le> n \<Longrightarrow>
     normalizeSelection \<lparr>sfrom = a, sto = b\<rparr> n = \<lparr>sfrom = a, sto = b\<rparr>"
  by (simp add: normalizeSelection_def clamp_def Let_def)

lemma expandSelectionToWord_covers:
  assumes "0 \<le> pos" "pos \<le> int (length s)" "expandSelectionToWord s pos = Some w"
  shows "sfrom w \<le> pos \<and> pos \<le> sto w"
proof -
  from assms(1,2) have "clamp pos 0 (int (length s)) = pos" by (simp add: clamp_def)
  with expandSelectionToWord_run [OF assms(3)] show ?thesis by simp
qed

lemma resolveTargetSelection_covers:
  "sfrom (resolveTargetSelection s sel p) \<le> sfrom (normalizeSelection sel (int (length s)))
   \<and> sto (normalizeSelection sel (int (length s))) \<le> sto (resolveTargetSelection s sel p)"
proof -
  have "0 \<le> sfrom (normalizeSelection sel (int (length s)))
     \<and> sfrom (normalizeSelection sel (int (length s))) \<le> sto (normalizeSelection sel (int (length s)))
     \<and> sto (normalizeSelection sel (int (length s))) \<le> int (length s)"
    by (rule normalizeSelection_range) simp
  then show ?thesis
    by (auto simp: resolveTargetSelection_def Let_def split: option.splits
          dest: expandSelectionToWord_covers)
qed

lemma formatMarker_covers_aux:
  assumes tg: "resolveTargetSelection s sel p = tg"
    and r: "0 \<le> sfrom tg" "sfrom tg \<le> sto tg" "sto tg \<le> int (length s)"
  shows "editCovers tg (formatMarker s sel m p)"
proof -
  have len: "int (length (js_slice s (sfrom tg) (sto tg))) = sto tg - sfrom tg"
    using r by (rule length_js_slice)
  show ?thesis
  proof (cases "sfrom tg = sto tg")
    case True
    then show ?thesis by (simp add: formatMarker_def tg Let_def editCovers_def)
  next
    case ne: False
    show ?thesis
    proof (cases "isWrappedSelection (js_slice s (sfrom tg) (sto tg)) m")
      case True
      with ne r show ?thesis by (simp add: formatMarker_def tg Let_def editCovers_def)
    next
      case nw: False
      show ?thesis
      proof (cases "hasSurroundingMarkers s (sfrom tg) (sto tg) m")
        case True
        with nw ne r len show ?thesis by (simp add: formatMarker_def tg Let_def editCovers_def)
      next
        case False
        with nw ne r len show ?thesis by (simp add: formatMarker_def tg Let_def editCovers_def)
      qed
    qed
  qed
qed

lemma tryUnwrapLinkAroundSelection_covers:
  assumes u: "tryUnwrapLinkAroundSelection s tg = Some r"
    and r: "0 \<le> sfrom tg" "sfrom tg \<le> sto tg" "sto tg \<le> int (length s)"
  shows "editCovers tg r"
proof -
  let ?le = "js_indexOf s '']('' (sto tg)"
  let ?ue = "js_indexOf s '')'' (?le + 2)"
  from u have f: "sfrom tg \<noteq> 0" and le: "?le = sto tg" and ue: "?ue \<noteq> - 1"
    by (auto simp: tryUnwrapLinkAroundSelection_def Let_def split: if_splits)
  from le r have "?le \<noteq> - 1" by simp
  from js_indexOf_bounds [OF this] r le have t2: "sto tg + 2 \<le> int (length s)" by simp
  from ue le have ue': "js_indexOf s '')'' (sto tg + 2) \<noteq> - 1" by simp
  from js_indexOf_bounds [OF ue'] r t2
  have ub: "sto tg + 2 \<le> js_indexOf s '')'' (sto tg + 2)" by simp
  from u f le ue' have
    "rchange r = Some \<lparr>cfrom = sfrom tg - 1, cto = js_indexOf s '')'' (sto tg + 2) + 1,
                         cinsert = js_slice s (sfrom tg) (sto tg)\<rparr>"
    "rselection r = \<lparr>sfrom = sfrom tg - 1,
                      sto = sfrom tg - 1 + int (length (js_slice s (sfrom tg) (sto tg)))\<rparr>"
    by (auto simp add: tryUnwrapLinkAroundSelection_def Let_def split: if_splits)
  with ub show ?thesis by (simp add: editCovers_def)
qed

lemma formatLink_covers_aux:
  assumes tg: "resolveTargetSelection s sel p = tg"
    and r: "0 \<le> sfrom tg" "sfrom tg \<le> sto tg" "sto tg \<le> int (length s)"
  shows "editCovers tg (formatLink s sel p opts)"
proof (cases "tryUnwrapFullLink (js_slice s (sfrom tg) (sto tg))")
  case (Some lbl)
  with r show ?thesis by (simp add: formatLink_def tg Let_def editCovers_def)
next
  case None
  show ?thesis
  proof (cases "tryUnwrapLinkAroundSelection s tg")
    case (Some sr)
    from tryUnwrapLinkAroundSelection_covers [OF Some r] None Some show ?thesis
      by (simp add: formatLink_def tg Let_def)
  next
    case nn: None
    with None r show ?thesis
      by (simp add: formatLink_def tg Let_def editCovers_def)
  qed
qed

lemma editCovers_mono:
  "editCovers tg r \<Longrightarrow> sfrom tg \<le> sfrom n \<Longrightarrow> sto n \<le> sto tg \<Longrightarrow> editCovers n r"
  by (auto simp: editCovers_def split: option.splits)

lemma applyCommandToText_covers:
  "editCovers (normalizeSelection sel (int (length s))) (applyCommandToText s sel c p opts)"
proof -
  note rg = resolveTargetSelection_range [of s sel p]
  have "editCovers (resolveTargetSelection s sel p) (applyCommandToText s sel c p opts)"
    using rg
    by (cases c)
       (simp_all add: applyCommandToText_def formatMarker_covers_aux [OF refl]
          formatLink_covers_aux [OF refl])
  then show ?thesis
    using resolveTargetSelection_covers [of s sel p] by (blast intro: editCovers_mono)
qed

lemma normalizeSelection_keeps:
  "0 \<le> sfrom sel \<Longrightarrow> sfrom sel \<le> sto sel \<Longrightarrow> sto sel \<le> n \<Longrightarrow>
     normalizeSelection sel n = sel"
  by (cases sel) (simp add: normalizeSelection_def clamp_def Let_def)

text \<open>
  Claim C9. For every text, every format command and every selection whose offsets are
  arbitrary integers (negative, reversed or beyond the text length), the engine works on
  the selection clamped and normalized to \<open>[0, text.length]\<close>: each end goes to the
  nearest bound of \<open>[0, text.length]\<close>, the smaller end comes first, and a selection
  already in range and in order is kept. The engine then returns a well-formed result: a
  selection inside the new text, an edit descriptor inside the old text that produces the
  new text and spans the normalized selection, with the resulting selection inside the
  inserted text, and a changed flag that is set, the text differing from the old one. The
  model is a total function with no error value, as no operation of the source can throw.
\<close>

theorem applyCommandToText_normalizes_and_is_wellformed:
  "0 \<le> sfrom (normalizeSelection sel (int (length s)))
   \<and> sfrom (normalizeSelection sel (int (length s))) \<le> sto (normalizeSelection sel (int (length s)))
   \<and> sto (normalizeSelection sel (int (length s))) \<le> int (length s)
   \<and> applyCommandToText s sel c p opts
       = applyCommandToText s (normalizeSelection sel (int (length s))) c p opts
   \<and> wellFormedResult s (applyCommandToText s sel c p opts)
   \<and> normalizeSelection sel (int (length s))
       = \<lparr>sfrom = min (max 0 (min (int (length s)) (sfrom sel)))
                      (max 0 (min (int (length s)) (sto sel))),
          sto = max (max 0 (min (int (length s)) (sfrom sel)))
                    (max 0 (min (int (length s)) (sto sel)))\<rparr>
   \<and> (0 \<le> sfrom sel \<and> sfrom sel \<le> sto sel \<and> sto sel \<le> int (length s)
        \<longrightarrow> normalizeSelection sel (int (length s)) = sel)
   \<and> editCovers (normalizeSelection sel (int (length s))) (applyCommandToText s sel c p opts)
   \<and> rchanged (applyCommandToText s sel c p opts)
   \<and> rtext (applyCommandToText s sel c p opts) \<noteq> s"
proof -
  have a: "0 \<le> sfrom (normalizeSelection sel (int (length s)))
   \<and> sfrom (normalizeSelection sel (int (length s))) \<le> sto (normalizeSelection sel (int (length s)))
   \<and> sto (normalizeSelection sel (int (length s))) \<le> int (length s)"
    by (rule normalizeSelection_range) simp
  have b: "applyCommandToText s sel c p opts
       = applyCommandToText s (normalizeSelection sel (int (length s))) c p opts"
    by (rule applyCommandToText_cong) (simp add: normalizeSelection_idem)
  have c: "wellFormedResult s (applyCommandToText s sel c p opts)"
    by (rule applyCommandToText_wellFormed)
  note d = normalizeSelection_explicit [of sel "int (length s)"]
  have e: "0 \<le> sfrom sel \<and> sfrom sel \<le> sto sel \<and> sto sel \<le> int (length s)
        \<longrightarrow> normalizeSelection sel (int (length s)) = sel"
    by (simp add: normalizeSelection_keeps)
  have f: "editCovers (normalizeSelection sel (int (length s))) (applyCommandToText s sel c p opts)"
    by (rule applyCommandToText_covers)
  have g: "rchanged (applyCommandToText s sel c p opts)"
    using applyCommandToText_always_changes [of s sel c p opts] by blast
  with c have h: "rtext (applyCommandToText s sel c p opts) \<noteq> s"
    by (simp add: wellFormedResult_def)
  from a b c d e f g h show ?thesis by blast
qed

theorem applyCommandToText_normalizes_and_is_wellformed_witness:
  "normalizeSelection \<lparr>sfrom = 40, sto = - 3\<rparr> (int (length ''one two'')) = \<lparr>sfrom = 0, sto = 7\<rparr>
   \<and> applyCommandToText ''one two'' \<lparr>sfrom = 40, sto = - 3\<rparr> Bold
       \<lparr>emptySelectionBehavior = WordBehavior, italicDelimiter = Underscore\<rparr>
       \<lparr>linkUrl = None, linkText = None\<rparr>
     = applyCommandToText ''one two'' \<lparr>sfrom = 0, sto = 7\<rparr> Bold
       \<lparr>emptySelectionBehavior = WordBehavior, italicDelimiter = Underscore\<rparr>
       \<lparr>linkUrl = None, linkText = None\<rparr>
   \<and> wellFormedResult ''one two''
        (applyCommandToText ''one two'' \<lparr>sfrom = 40, sto = - 3\<rparr> Bold
          \<lparr>emptySelectionBehavior = WordBehavior, italicDelimiter = Underscore\<rparr>
          \<lparr>linkUrl = None, linkText = None\<rparr>)
   \<and> editCovers \<lparr>sfrom = 0, sto = 7\<rparr>
        (applyCommandToText ''one two'' \<lparr>sfrom = 40, sto = - 3\<rparr> Bold
          \<lparr>emptySelectionBehavior = WordBehavior, italicDelimiter = Underscore\<rparr>
          \<lparr>linkUrl = None, linkText = None\<rparr>)
   \<and> normalizeSelection \<lparr>sfrom = 2, sto = 5\<rparr> (int (length ''one two'')) = \<lparr>sfrom = 2, sto = 5\<rparr>
   \<and> rtext (applyCommandToText ''one two'' \<lparr>sfrom = 40, sto = - 3\<rparr> Bold
          \<lparr>emptySelectionBehavior = WordBehavior, italicDelimiter = Underscore\<rparr>
          \<lparr>linkUrl = None, linkText = None\<rparr>) = ''**one two**''"
proof -
  note t = applyCommandToText_normalizes_and_is_wellformed [of "\<lparr>sfrom = 40, sto = - 3\<rparr>" "''one two''" Bold
             "\<lparr>emptySelectionBehavior = WordBehavior, italicDelimiter = Underscore\<rparr>"
             "\<lparr>linkUrl = None, linkText = None\<rparr>"]
  from t have "normalizeSelection \<lparr>sfrom = 40, sto = - 3\<rparr> (int (length ''one two''))
       = \<lparr>sfrom = min (max 0 (min (int (length ''one two'')) (sfrom \<lparr>sfrom = 40, sto = - 3\<rparr>)))
                      (max 0 (min (int (length ''one two'')) (sto \<lparr>sfrom = 40, sto = - 3\<rparr>))),
          sto = max (max 0 (min (int (length ''one two'')) (sfrom \<lparr>sfrom = 40, sto = - 3\<rparr>)))
                    (max 0 (min (int (length ''one two'')) (sto \<lparr>sfrom = 40, sto = - 3\<rparr>)))\<rparr>"
    by blast
  then have n: "normalizeSelection \<lparr>sfrom = 40, sto = - 3\<rparr> (int (length ''one two''))
             = \<lparr>sfrom = 0, sto = 7\<rparr>"
    by simp
  have k0: "0 \<le> sfrom \<lparr>sfrom = 2, sto = 5\<rparr> \<and> sfrom \<lparr>sfrom = 2, sto = 5\<rparr> \<le> sto \<lparr>sfrom = 2, sto = 5\<rparr>
              \<and> sto \<lparr>sfrom = 2, sto = 5\<rparr> \<le> int (length ''one two'')"
    by simp
  from applyCommandToText_normalizes_and_is_wellformed [of "\<lparr>sfrom = 2, sto = 5\<rparr>" "''one two''" Bold
             "\<lparr>emptySelectionBehavior = WordBehavior, italicDelimiter = Underscore\<rparr>"
             "\<lparr>linkUrl = None, linkText = None\<rparr>"] k0
  have k: "normalizeSelection \<lparr>sfrom = 2, sto = 5\<rparr> (int (length ''one two'')) = \<lparr>sfrom = 2, sto = 5\<rparr>"
    by blast
  have v: "rtext (applyCommandToText ''one two'' \<lparr>sfrom = 40, sto = - 3\<rparr> Bold
          \<lparr>emptySelectionBehavior = WordBehavior, italicDelimiter = Underscore\<rparr>
          \<lparr>linkUrl = None, linkText = None\<rparr>) = ''**one two**''"
    by code_simp
  from t n k v show ?thesis unfolding n by blast
qed

subsection \<open>The overlap guard of the loop\<close>

lemma loopStep_skip:
  "rangeAt (ranges st) (oindex entry) = Inr current \<Longrightarrow> sto current > overlapGuard st \<Longrightarrow>
     loopStep mp command p opts st entry = Inr st"
  by (simp add: loopStep_def)

lemma loopStep_process:
  assumes cur: "rangeAt (ranges st) (oindex entry) = Inr current"
    and le: "sto current \<le> overlapGuard st"
    and step: "loopStep mp command p opts st entry = Inr st'"
  shows "\<exists>ch. rchange (applyCommandToText (nextText st) current command p opts) = Some ch
            \<and> changes st' = changes st @ [ch]
            \<and> processedIndices st' = processedIndices st @ [oindex entry]
            \<and> overlapGuard st' = min (overlapGuard st) (cfrom ch)
            \<and> nextText st' = rtext (applyCommandToText (nextText st) current command p opts)
            \<and> hasDocumentChange st'"
proof -
  let ?r = "applyCommandToText (nextText st) current command p opts"
  from applyCommandToText_always_changes [of "nextText st" current command p opts]
  obtain ch where ch: "rchanged ?r" "rchange ?r = Some ch" "validChange ch (int (length (nextText st)))"
    by blast
  from step cur le ch show ?thesis
    by (auto simp: loopStep_def Let_def split: sum.splits)
qed

lemma loopStep_not_skipped:
  assumes cur: "rangeAt (ranges st) (oindex entry) = Inr current"
    and le: "sto current \<le> overlapGuard st"
  shows "loopStep mp command p opts st entry \<noteq> Inr st"
proof
  assume "loopStep mp command p opts st entry = Inr st"
  from loopStep_process [OF cur le this] show False by auto
qed

lemma foldr_min_snoc:
  "foldr min (map cfrom cs) (min (cfrom ch) (M::int)) = min (foldr min (map cfrom cs) M) (cfrom ch)"
  by (induction cs) (auto simp: min_def)

lemma foldr_min_less:
  "foldr min (map cfrom cs) (M::int) < x \<longleftrightarrow> M < x \<or> (\<exists>c \<in> set cs. cfrom c < x)"
  by (induction cs) (auto simp: min_def)

lemma loopStep_guard:
  assumes inv: "overlapGuard st = foldr min (map cfrom (changes st)) MAX_SAFE_INTEGER"
    and step: "loopStep mp command p opts st entry = Inr st'"
  shows "overlapGuard st' = foldr min (map cfrom (changes st')) MAX_SAFE_INTEGER"
proof (cases "rangeAt (ranges st) (oindex entry)")
  case (Inl e)
  with step show ?thesis by (simp add: loopStep_def)
next
  case (Inr current)
  show ?thesis
  proof (cases "sto current > overlapGuard st")
    case True
    from loopStep_skip [OF Inr True, of mp command p opts] step inv show ?thesis by simp
  next
    case False
    then have "sto current \<le> overlapGuard st" by simp
    from loopStep_process [OF Inr this step] inv show ?thesis
      by (auto simp: foldr_min_snoc)
  qed
qed

lemma loopRun_guard:
  "overlapGuard st = foldr min (map cfrom (changes st)) MAX_SAFE_INTEGER \<Longrightarrow>
   loopRun mp command p opts st entries = Inr st' \<Longrightarrow>
   overlapGuard st' = foldr min (map cfrom (changes st')) MAX_SAFE_INTEGER"
proof (induction entries arbitrary: st)
  case Nil
  then show ?case by simp
next
  case (Cons e es)
  from Cons.prems(2) obtain st1 where s1: "loopStep mp command p opts st e = Inr st1"
    and r: "loopRun mp command p opts st1 es = Inr st'"
    by (auto split: sum.splits)
  from Cons.IH [OF loopStep_guard [OF Cons.prems(1) s1] r] show ?case .
qed

text \<open>
  Claim C1, as amended. After any run of the loop, the next range is skipped (the loop state
  is left as it is: no edit, no selection update) whenever its end offset is strictly
  greater than the start offset of an edit already committed; a range whose end offset is
  at most the start offset of every committed edit, in particular one that ends exactly
  where a committed edit starts, is processed: its index joins the processed indices and
  one edit is committed for it. The end offset is taken to be at most
  \<open>Number.MAX_SAFE_INTEGER\<close>, the initial value of the guard, as every offset into a
  string is.
\<close>

theorem loopStep_overlap_guard:
  assumes run: "loopRun mp command p opts (initialState doc selectionRanges) processed = Inr st"
    and cur: "rangeAt (ranges st) (oindex entry) = Inr current"
    and bound: "sto current \<le> MAX_SAFE_INTEGER"
  shows "((\<exists>c \<in> set (changes st). cfrom c < sto current)
            \<longrightarrow> loopStep mp command p opts st entry = Inr st)
       \<and> ((\<forall>c \<in> set (changes st). sto current \<le> cfrom c)
            \<longrightarrow> loopStep mp command p opts st entry \<noteq> Inr st
                \<and> (\<forall>st'. loopStep mp command p opts st entry = Inr st'
                      \<longrightarrow> processedIndices st' = processedIndices st @ [oindex entry]
                          \<and> (\<exists>ch. changes st' = changes st @ [ch])))"
proof -
  have "overlapGuard (initialState doc selectionRanges)
          = foldr min (map cfrom (changes (initialState doc selectionRanges))) MAX_SAFE_INTEGER"
    by (simp add: initialState_def)
  from loopRun_guard [OF this run]
  have g: "overlapGuard st = foldr min (map cfrom (changes st)) MAX_SAFE_INTEGER" .
  have skip: "(\<exists>c \<in> set (changes st). cfrom c < sto current) \<longleftrightarrow> overlapGuard st < sto current"
    unfolding g foldr_min_less using bound by auto
  show ?thesis
  proof (intro conjI impI)
    assume "\<exists>c \<in> set (changes st). cfrom c < sto current"
    with skip have "sto current > overlapGuard st" by simp
    from loopStep_skip [OF cur this] show "loopStep mp command p opts st entry = Inr st" .
  next
    assume a: "\<forall>c \<in> set (changes st). sto current \<le> cfrom c"
    with skip have le: "sto current \<le> overlapGuard st" by fastforce
    from loopStep_not_skipped [OF cur le]
    show "loopStep mp command p opts st entry \<noteq> Inr st" .
  next
    assume a: "\<forall>c \<in> set (changes st). sto current \<le> cfrom c"
    with skip have le: "sto current \<le> overlapGuard st" by fastforce
    show "\<forall>st'. loopStep mp command p opts st entry = Inr st'
                      \<longrightarrow> processedIndices st' = processedIndices st @ [oindex entry]
                          \<and> (\<exists>ch. changes st' = changes st @ [ch])"
      using loopStep_process [OF cur le] by blast
  qed
qed

theorem loopStep_overlap_guard_witness:
  "loopStep cmMapPos Bold \<lparr>emptySelectionBehavior = WordBehavior, italicDelimiter = Underscore\<rparr> \<lparr>linkUrl = None, linkText = None\<rparr>
      \<lparr>nextText = ''one**two**'', ranges = [\<lparr>sfrom = 0, sto = 3\<rparr>, \<lparr>sfrom = 5, sto = 8\<rparr>], processedIndices = [1],
        changes = [\<lparr>cfrom = 3, cto = 6, cinsert = ''**two**''\<rparr>],
        hasDocumentChange = True, overlapGuard = 3\<rparr>
      \<lparr>ofrom = 0, oto = 3, oindex = 0\<rparr>
     \<noteq> Inr \<lparr>nextText = ''one**two**'', ranges = [\<lparr>sfrom = 0, sto = 3\<rparr>, \<lparr>sfrom = 5, sto = 8\<rparr>], processedIndices = [1],
        changes = [\<lparr>cfrom = 3, cto = 6, cinsert = ''**two**''\<rparr>],
        hasDocumentChange = True, overlapGuard = 3\<rparr>
   \<and> loopStep cmMapPos Bold \<lparr>emptySelectionBehavior = WordBehavior, italicDelimiter = Underscore\<rparr> \<lparr>linkUrl = None, linkText = None\<rparr>
      \<lparr>nextText = ''**abc**'', ranges = [\<lparr>sfrom = 1, sto = 1\<rparr>, \<lparr>sfrom = 2, sto = 5\<rparr>], processedIndices = [1],
        changes = [\<lparr>cfrom = 0, cto = 3, cinsert = ''**abc**''\<rparr>],
        hasDocumentChange = True, overlapGuard = 0\<rparr>
      \<lparr>ofrom = 1, oto = 1, oindex = 0\<rparr>
     = Inr \<lparr>nextText = ''**abc**'', ranges = [\<lparr>sfrom = 1, sto = 1\<rparr>, \<lparr>sfrom = 2, sto = 5\<rparr>], processedIndices = [1],
        changes = [\<lparr>cfrom = 0, cto = 3, cinsert = ''**abc**''\<rparr>],
        hasDocumentChange = True, overlapGuard = 0\<rparr>"
proof -
  have run1: "loopRun cmMapPos Bold \<lparr>emptySelectionBehavior = WordBehavior, italicDelimiter = Underscore\<rparr> \<lparr>linkUrl = None, linkText = None\<rparr>
                (initialState ''onetwo'' [\<lparr>sfrom = 0, sto = 3\<rparr>, \<lparr>sfrom = 3, sto = 6\<rparr>])
                [\<lparr>ofrom = 3, oto = 6, oindex = 1\<rparr>]
              = Inr \<lparr>nextText = ''one**two**'', ranges = [\<lparr>sfrom = 0, sto = 3\<rparr>, \<lparr>sfrom = 5, sto = 8\<rparr>], processedIndices = [1],
        changes = [\<lparr>cfrom = 3, cto = 6, cinsert = ''**two**''\<rparr>],
        hasDocumentChange = True, overlapGuard = 3\<rparr>"
    by code_simp
  have cur1: "rangeAt (ranges \<lparr>nextText = ''one**two**'', ranges = [\<lparr>sfrom = 0, sto = 3\<rparr>, \<lparr>sfrom = 5, sto = 8\<rparr>], processedIndices = [1],
        changes = [\<lparr>cfrom = 3, cto = 6, cinsert = ''**two**''\<rparr>],
        hasDocumentChange = True, overlapGuard = 3\<rparr>) (oindex \<lparr>ofrom = 0, oto = 3, oindex = 0\<rparr>) = Inr \<lparr>sfrom = 0, sto = 3\<rparr>"
    by (simp add: rangeAt_def)
  have b1: "sto \<lparr>sfrom = 0, sto = 3\<rparr> \<le> MAX_SAFE_INTEGER" by (simp add: MAX_SAFE_INTEGER_def)
  have h1: "\<forall>c \<in> set (changes \<lparr>nextText = ''one**two**'', ranges = [\<lparr>sfrom = 0, sto = 3\<rparr>, \<lparr>sfrom = 5, sto = 8\<rparr>], processedIndices = [1],
        changes = [\<lparr>cfrom = 3, cto = 6, cinsert = ''**two**''\<rparr>],
        hasDocumentChange = True, overlapGuard = 3\<rparr>). sto \<lparr>sfrom = 0, sto = 3\<rparr> \<le> cfrom c"
    by simp
  have run2: "loopRun cmMapPos Bold \<lparr>emptySelectionBehavior = WordBehavior, italicDelimiter = Underscore\<rparr> \<lparr>linkUrl = None, linkText = None\<rparr>
                (initialState ''abc'' [\<lparr>sfrom = 1, sto = 1\<rparr>, \<lparr>sfrom = 2, sto = 2\<rparr>])
                [\<lparr>ofrom = 2, oto = 2, oindex = 1\<rparr>]
              = Inr \<lparr>nextText = ''**abc**'', ranges = [\<lparr>sfrom = 1, sto = 1\<rparr>, \<lparr>sfrom = 2, sto = 5\<rparr>], processedIndices = [1],
        changes = [\<lparr>cfrom = 0, cto = 3, cinsert = ''**abc**''\<rparr>],
        hasDocumentChange = True, overlapGuard = 0\<rparr>"
    by code_simp
  have cur2: "rangeAt (ranges \<lparr>nextText = ''**abc**'', ranges = [\<lparr>sfrom = 1, sto = 1\<rparr>, \<lparr>sfrom = 2, sto = 5\<rparr>], processedIndices = [1],
        changes = [\<lparr>cfrom = 0, cto = 3, cinsert = ''**abc**''\<rparr>],
        hasDocumentChange = True, overlapGuard = 0\<rparr>) (oindex \<lparr>ofrom = 1, oto = 1, oindex = 0\<rparr>) = Inr \<lparr>sfrom = 1, sto = 1\<rparr>"
    by (simp add: rangeAt_def)
  have b2: "sto \<lparr>sfrom = 1, sto = 1\<rparr> \<le> MAX_SAFE_INTEGER" by (simp add: MAX_SAFE_INTEGER_def)
  have h2: "\<exists>c \<in> set (changes \<lparr>nextText = ''**abc**'', ranges = [\<lparr>sfrom = 1, sto = 1\<rparr>, \<lparr>sfrom = 2, sto = 5\<rparr>], processedIndices = [1],
        changes = [\<lparr>cfrom = 0, cto = 3, cinsert = ''**abc**''\<rparr>],
        hasDocumentChange = True, overlapGuard = 0\<rparr>). cfrom c < sto \<lparr>sfrom = 1, sto = 1\<rparr>"
    by simp
  note t1 = loopStep_overlap_guard [OF run1 cur1 b1, THEN conjunct2, THEN mp, OF h1, THEN conjunct1]
  note t2 = loopStep_overlap_guard [OF run2 cur2 b2, THEN conjunct1, THEN mp, OF h2]
  from t1 t2 show ?thesis by (rule conjI)
qed

text \<open>
  Claim C1 as stated fails at the boundary. In \<open>onetwo\<close> with the selections \<open>[0,3)\<close> and
  \<open>[3,6)\<close> the right range is processed first and commits an edit starting at 3; the left
  range ends at 3 and is processed all the same: the guard test is \<open>current.to > overlapGuard\<close>.
\<close>

theorem loopStep_overlap_guard_counterexample:
  "sortBy orderCompare (withIndex [\<lparr>sfrom = 0, sto = 3\<rparr>, \<lparr>sfrom = 3, sto = 6\<rparr>])
     = [\<lparr>ofrom = 3, oto = 6, oindex = 1\<rparr>, \<lparr>ofrom = 0, oto = 3, oindex = 0\<rparr>]
   \<and> loopRun cmMapPos Bold \<lparr>emptySelectionBehavior = WordBehavior, italicDelimiter = Underscore\<rparr> \<lparr>linkUrl = None, linkText = None\<rparr>
        (initialState ''onetwo'' [\<lparr>sfrom = 0, sto = 3\<rparr>, \<lparr>sfrom = 3, sto = 6\<rparr>])
        [\<lparr>ofrom = 3, oto = 6, oindex = 1\<rparr>]
       = Inr \<lparr>nextText = ''one**two**'', ranges = [\<lparr>sfrom = 0, sto = 3\<rparr>, \<lparr>sfrom = 5, sto = 8\<rparr>], processedIndices = [1],
        changes = [\<lparr>cfrom = 3, cto = 6, cinsert = ''**two**''\<rparr>],
        hasDocumentChange = True, overlapGuard = 3\<rparr>
   \<and> loopStep cmMapPos Bold \<lparr>emptySelectionBehavior = WordBehavior, italicDelimiter = Underscore\<rparr> \<lparr>linkUrl = None, linkText = None\<rparr>
        \<lparr>nextText = ''one**two**'', ranges = [\<lparr>sfrom = 0, sto = 3\<rparr>, \<lparr>sfrom = 5, sto = 8\<rparr>], processedIndices = [1],
        changes = [\<lparr>cfrom = 3, cto = 6, cinsert = ''**two**''\<rparr>],
        hasDocumentChange = True, overlapGuard = 3\<rparr>
        \<lparr>ofrom = 0, oto = 3, oindex = 0\<rparr>
       = Inr \<lparr>nextText = ''**one****two**'', ranges = [\<lparr>sfrom = 2, sto = 5\<rparr>, \<lparr>sfrom = 9, sto = 12\<rparr>], processedIndices = [1, 0],
        changes = [\<lparr>cfrom = 3, cto = 6, cinsert = ''**two**''\<rparr>, \<lparr>cfrom = 0, cto = 3, cinsert = ''**one**''\<rparr>],
        hasDocumentChange = True, overlapGuard = 0\<rparr>"
  by code_simp

text \<open>
  Claim C2 does not hold of the code. In \<open>**a*b\<close> with the selections \<open>[2,3)\<close> and \<open>[4,5)\<close>
  and the command bold, the right range is wrapped by an edit starting at 4. The left range
  ends at 3, so the guard lets it through; in the text as edited so far it is surrounded by
  \<open>**\<close>, and unwrapping outward gives the edit \<open>[0,5)\<close>, which reaches into the edit
  committed before. The sorted descriptors handed to the transaction overlap. In \<open>**a*\<close>
  with the selections \<open>[2,3)\<close> and the caret \<open>[4,4)\<close> the same edit \<open>[0,5)\<close> ends beyond
  the document, whose length is 4.
\<close>

theorem applyFormattingToEditor_overlapping_edits:
  "applyFormattingToEditor cmMapPos ''**a*b'' [\<lparr>sfrom = 2, sto = 3\<rparr>, \<lparr>sfrom = 4, sto = 5\<rparr>] 0 Bold \<lparr>emptySelectionBehavior = WordBehavior, italicDelimiter = Underscore\<rparr> \<lparr>linkUrl = None, linkText = None\<rparr>
     = Inr (Dispatched [\<lparr>cfrom = 0, cto = 5, cinsert = ''a''\<rparr>, \<lparr>cfrom = 4, cto = 5, cinsert = ''**b**''\<rparr>]
              [\<lparr>sfrom = 0, sto = 1\<rparr>, \<lparr>sfrom = 2, sto = 3\<rparr>] 0)
   \<and> \<not> nonOverlapping [\<lparr>cfrom = 0, cto = 5, cinsert = ''a''\<rparr>, \<lparr>cfrom = 4, cto = 5, cinsert = ''**b**''\<rparr>]
   \<and> changes_of_run
        (loopRun cmMapPos Bold \<lparr>emptySelectionBehavior = WordBehavior, italicDelimiter = Underscore\<rparr> \<lparr>linkUrl = None, linkText = None\<rparr>
           (initialState ''**a*'' [\<lparr>sfrom = 2, sto = 3\<rparr>, \<lparr>sfrom = 4, sto = 4\<rparr>])
           (sortBy orderCompare (withIndex [\<lparr>sfrom = 2, sto = 3\<rparr>, \<lparr>sfrom = 4, sto = 4\<rparr>])))
       = [\<lparr>cfrom = 4, cto = 4, cinsert = ''****''\<rparr>, \<lparr>cfrom = 0, cto = 5, cinsert = ''a''\<rparr>]
   \<and> \<not> validChange \<lparr>cfrom = 0, cto = 5, cinsert = ''a''\<rparr> (int (length ''**a*''))
   \<and> applyFormattingToEditor cmMapPos ''**a*'' [\<lparr>sfrom = 2, sto = 3\<rparr>, \<lparr>sfrom = 4, sto = 4\<rparr>] 0 Bold
        \<lparr>emptySelectionBehavior = WordBehavior, italicDelimiter = Underscore\<rparr> \<lparr>linkUrl = None, linkText = None\<rparr>
       = Inl RangeError"
  by code_simp

section \<open>Properties of the selection-overlap test\<close>

text \<open>
  Claim C5, as amended. The selection-overlap test holds for a node range \<open>[f, t]\<close> and a
  selection set exactly when some selection range has its start offset (which the code
  takes as the cursor position of every range, empty or not) within the closed interval
  \<open>[f, t]\<close>, or is non-empty with its smaller end before \<open>t\<close> and its larger end after \<open>f\<close>.
  A non-empty range that starts at offset \<open>t\<close> therefore counts as overlapping.
\<close>

theorem isRangeSelected_characterization:
  "isRangeSelected sel f t \<longleftrightarrow>
     (\<exists>r \<in> set sel. (f \<le> sfrom r \<and> sfrom r \<le> t)
        \<or> (sfrom r \<noteq> sto r \<and> min (sfrom r) (sto r) < t \<and> max (sfrom r) (sto r) > f))"
  by (induction sel) (auto simp: Let_def)

theorem isRangeSelected_characterization_witness:
  "isRangeSelected [\<lparr>sfrom = 9, sto = 9\<rparr>, \<lparr>sfrom = 2, sto = 4\<rparr>] 3 6
   \<and> isRangeSelected [\<lparr>sfrom = 6, sto = 8\<rparr>] 3 6
   \<and> \<not> isRangeSelected [\<lparr>sfrom = 7, sto = 8\<rparr>] 3 6"
proof -
  have a: "\<exists>r \<in> set [\<lparr>sfrom = 9, sto = 9\<rparr>, \<lparr>sfrom = 2, sto = 4\<rparr>]. (3 \<le> sfrom r \<and> sfrom r \<le> 6)
        \<or> (sfrom r \<noteq> sto r \<and> min (sfrom r) (sto r) < 6 \<and> max (sfrom r) (sto r) > 3)"
    by simp
  have b: "\<exists>r \<in> set [\<lparr>sfrom = 6, sto = 8\<rparr>]. (3 \<le> sfrom r \<and> sfrom r \<le> 6)
        \<or> (sfrom r \<noteq> sto r \<and> min (sfrom r) (sto r) < 6 \<and> max (sfrom r) (sto r) > 3)"
    by simp
  have c: "\<not> (\<exists>r \<in> set [\<lparr>sfrom = 7, sto = 8\<rparr>]. (3 \<le> sfrom r \<and> sfrom r \<le> 6)
        \<or> (sfrom r \<noteq> sto r \<and> min (sfrom r) (sto r) < 6 \<and> max (sfrom r) (sto r) > 3))"
    by simp
  from a b c show ?thesis unfolding isRangeSelected_characterization [symmetric] by simp
qed

text \<open>
  Claim C5 as stated fails: the non-empty selection \<open>[5, 8)\<close> starts at the end of the node
  range \<open>[0, 5]\<close> and does not meet \<open>[0, 5)\<close>, yet the test holds, since the start offset 5
  lies within \<open>[0, 5]\<close>.
\<close>

theorem isRangeSelected_characterization_counterexample:
  "isRangeSelected [\<lparr>sfrom = 5, sto = 8\<rparr>] 0 5
   \<and> \<not> specSelectionOverlapped [\<lparr>sfrom = 5, sto = 8\<rparr>] 0 5"
  by (simp add: specSelectionOverlapped_def)

section \<open>Properties of the table parser\<close>

lemma splitOn_nonempty: "splitOn c s \<noteq> []"
  by (induction s) (auto split: list.splits)

lemma parseTableRow_nonempty: "1 \<le> length (parseTableRow line)"
  using splitOn_nonempty [of "CHR ''|''"]
  by (auto simp: parseTableRow_def Let_def Suc_le_eq)

lemma parseTableText_Some_iff:
  "parseTableText s \<noteq> None \<longleftrightarrow>
     (2 \<le> length (tableLines s)
      \<and> list_all (\<lambda>cell. alignCellOk (js_trim cell)) (parseTableRow (tableLines s ! 1)))"
  using parseTableRow_nonempty [of "tableLines s ! 0"]
  by (auto simp: parseTableText_def Let_def)

lemma parseTableText_Some:
  assumes "parseTableText s = Some tm"
  shows "headers tm = parseTableRow (tableLines s ! 0)"
    and "rows tm = map parseTableRow (drop 2 (tableLines s))"
    and "alignments tm = map cellAlignment (parseTableRow (tableLines s ! 1))"
  using assms by (auto simp: parseTableText_def Let_def split: if_splits)

text \<open>
  Claim C4, as amended. For every table text accepted by the table parser, the headers are
  the cells of the first non-blank line and each parsed data row holds the cells of its own
  line: at least one cell, neither padded nor cut to the headers' column count. The equal
  column count holds of the grid the Table Widget renders from the model: every body row
  gets exactly one cell per header.
\<close>

theorem parseTableText_rows_shape:
  assumes "parseTableText s = Some tm"
  shows "headers tm = parseTableRow (tableLines s ! 0)
       \<and> rows tm = map parseTableRow (drop 2 (tableLines s))
       \<and> 1 \<le> length (headers tm)
       \<and> (\<forall>row \<in> set (rows tm). 1 \<le> length row)
       \<and> (\<forall>row \<in> set (domBody (toDOM tm f t doc)). length row = length (headers tm))
       \<and> length (domHead (toDOM tm f t doc)) = length (headers tm)"
  using parseTableText_Some [OF assms] parseTableRow_nonempty
  by (auto simp: toDOM_def)

theorem parseTableText_rows_shape_witness:
  "parseTableText (''| a | b |'' @ [CHR 0x0A] @ ''| --- | :-: |'' @ [CHR 0x0A] @ ''| c | d |''
                     @ [CHR 0x0A] @ ''| e |'')
     = Some \<lparr>headers = [''a'', ''b''], rows = [[''c'', ''d''], [''e'']],
             alignments = [AlignLeft, AlignCenter]\<rparr>
   \<and> list_all (\<lambda>row. length row = 2)
         (domBody (toDOM \<lparr>headers = [''a'', ''b''], rows = [[''c'', ''d''], [''e'']],
                           alignments = [AlignLeft, AlignCenter]\<rparr> 0 39 []))
   \<and> length (domHead (toDOM \<lparr>headers = [''a'', ''b''], rows = [[''c'', ''d''], [''e'']],
                                 alignments = [AlignLeft, AlignCenter]\<rparr> 0 39 [])) = 2"
proof -
  have p: "parseTableText (''| a | b |'' @ [CHR 0x0A] @ ''| --- | :-: |'' @ [CHR 0x0A] @ ''| c | d |''
                     @ [CHR 0x0A] @ ''| e |'')
     = Some \<lparr>headers = [''a'', ''b''], rows = [[''c'', ''d''], [''e'']],
             alignments = [AlignLeft, AlignCenter]\<rparr>"
    by code_simp
  note t = parseTableText_rows_shape [OF p, of 0 39 "[]"]
  from t have a: "\<forall>row \<in> set (domBody (toDOM \<lparr>headers = [''a'', ''b''], rows = [[''c'', ''d''], [''e'']],
             alignments = [AlignLeft, AlignCenter]\<rparr> 0 39 [])).
           length row = length (headers \<lparr>headers = [''a'', ''b''], rows = [[''c'', ''d''], [''e'']],
             alignments = [AlignLeft, AlignCenter]\<rparr>)"
    by blast
  then have b: "list_all (\<lambda>row. length row = 2)
         (domBody (toDOM \<lparr>headers = [''a'', ''b''], rows = [[''c'', ''d''], [''e'']],
             alignments = [AlignLeft, AlignCenter]\<rparr> 0 39 []))"
    by (simp add: list_all_iff)
  from t have "length (domHead (toDOM \<lparr>headers = [''a'', ''b''], rows = [[''c'', ''d''], [''e'']],
             alignments = [AlignLeft, AlignCenter]\<rparr> 0 39 []))
           = length (headers \<lparr>headers = [''a'', ''b''], rows = [[''c'', ''d''], [''e'']],
             alignments = [AlignLeft, AlignCenter]\<rparr>)"
    by blast
  then have c: "length (domHead (toDOM \<lparr>headers = [''a'', ''b''], rows = [[''c'', ''d''], [''e'']],
             alignments = [AlignLeft, AlignCenter]\<rparr> 0 39 [])) = 2"
    by simp
  from p b c show ?thesis by blast
qed

text \<open>
  Claim C4 as stated fails: a data row with fewer cells than the header row is accepted and
  kept as it is.
\<close>

theorem parseTableText_rows_shape_counterexample:
  "parseTableText [CHR ''|'', CHR ''a'', CHR ''|'', CHR ''b'', CHR ''|'', CHR 0x0A,
                   CHR ''|'', CHR ''-'', CHR ''|'', CHR ''-'', CHR ''|'', CHR 0x0A,
                   CHR ''|'', CHR ''c'', CHR ''|'']
     = Some \<lparr>headers = [''a'', ''b''], rows = [[''c'']], alignments = [AlignLeft, AlignLeft]\<rparr>
   \<and> length [''c''] \<noteq> length [''a'', ''b'']"
  by code_simp

section \<open>Properties of the Table branch of the Decoration Builder\<close>

lemma linesFrom_last:
  "\<exists>l \<in> set (linesFrom pos num (splitOn c s)). lto l = pos + int (length s)"
proof (induction s arbitrary: pos num)
  case Nil
  show ?case by simp
next
  case (Cons x xs)
  show ?case
  proof (cases "x = c")
    case True
    from Cons.IH [of "pos + 1" "Suc num"] True show ?thesis by (auto simp: add.assoc)
  next
    case False
    obtain h tl where sp: "splitOn c xs = h # tl"
      using splitOn_nonempty [of c xs] by (cases "splitOn c xs") auto
    from Cons.IH [of "pos + 1" num] sp
    have "lto \<lparr>lfrom = pos + 1, lto = pos + 1 + int (length h), ltext = h, lnumber = num\<rparr>
             = pos + 1 + int (length xs)
          \<or> (\<exists>l \<in> set (linesFrom (pos + 1 + int (length h) + 1) (Suc num) tl).
                lto l = pos + 1 + int (length xs))"
      by auto
    with False sp show ?thesis by (auto simp: add.assoc)
  qed
qed

lemma lineAt_ok:
  assumes "0 \<le> pos" "pos \<le> int (length doc)"
  shows "\<exists>l. lineAt doc pos = Inr l"
proof -
  from linesFrom_last [of 0 1 "CHR 0x0A" doc]
  obtain l :: Line where l: "l \<in> set (docLineList doc)" "lto l = int (length doc)"
    by (auto simp: docLineList_def)
  from l(2) assms(2) have "pos \<le> lto l" by simp
  with l(1) have "\<exists>l \<in> set (docLineList doc). pos \<le> lto l" by blast
  then have "find (\<lambda>l. pos \<le> lto l) (docLineList doc) \<noteq> None"
    by (auto simp: find_None_iff)
  with assms show ?thesis by (auto simp: lineAt_def)
qed

lemma blockEnd_ok:
  assumes "0 \<le> f" "f \<le> t" "t \<le> int (length doc)"
  shows "\<exists>e. blockEnd doc f t = Inr e \<and> f \<le> e \<and> e \<le> t"
proof -
  from assms have m: "min t (int (length doc)) = t" by simp
  show ?thesis
  proof (cases "t > f")
    case True
    from assms have "0 \<le> t" by simp
    from lineAt_ok [OF this assms(3)] obtain l :: Line where "lineAt doc t = Inr l" by blast
    with True show ?thesis by (auto simp: blockEnd_def m)
  next
    case False
    with assms show ?thesis by (auto simp: blockEnd_def m)
  qed
qed

lemma enterTable_outside_unselected:
  assumes span: "0 \<le> f" "f \<le> t" "t \<le> int (length doc)"
    and out: "\<not> (fst (detectFrontmatter doc) > 0 \<and> t \<le> fst (detectFrontmatter doc))"
    and nsel: "\<not> isRangeSelected sel f t"
  shows "\<exists>e l1 l2. blockEnd doc f t = Inr e \<and> lineAt doc f = Inr l1 \<and> lineAt doc e = Inr l2
           \<and> tableBlockText doc f t = sliceString doc (lfrom l1) (lto l2)
           \<and> enterTable doc sel f t
               = Inr (case parseTableText (tableBlockText doc f t) of
                        Some parsed \<Rightarrow> [TableWidgetBlock parsed (lfrom l1) (lto l2)]
                      | None \<Rightarrow> [])"
proof -
  from blockEnd_ok [OF span] obtain e where e: "blockEnd doc f t = Inr e" "f \<le> e" "e \<le> t"
    by blast
  from span have "f \<le> int (length doc)" by simp
  from lineAt_ok [OF span(1) this] obtain l1 :: Line where l1: "lineAt doc f = Inr l1" by blast
  from e span have "0 \<le> e" "e \<le> int (length doc)" by simp_all
  from lineAt_ok [OF this] obtain l2 :: Line where l2: "lineAt doc e = Inr l2" by blast
  have tb: "tableBlockText doc f t = sliceString doc (lfrom l1) (lto l2)"
    by (simp add: tableBlockText_def e l1 l2)
  have "enterTable doc sel f t
               = Inr (case parseTableText (tableBlockText doc f t) of
                        Some parsed \<Rightarrow> [TableWidgetBlock parsed (lfrom l1) (lto l2)]
                      | None \<Rightarrow> [])"
    using out nsel unfolding tb
    by (auto simp: enterTable_def Let_def e l1 l2 split: option.splits)
  with e l1 l2 tb show ?thesis by blast
qed

lemma enterTable_outside_iff:
  assumes span: "0 \<le> f" "f \<le> t" "t \<le> int (length doc)"
    and out: "\<not> (fst (detectFrontmatter doc) > 0 \<and> t \<le> fst (detectFrontmatter doc))"
    and nsel: "\<not> isRangeSelected sel f t"
  shows "\<exists>ds. enterTable doc sel f t = Inr ds \<and> length ds \<le> 1
           \<and> (ds \<noteq> [] \<longleftrightarrow>
                (2 \<le> length (tableLines (tableBlockText doc f t))
                 \<and> list_all (\<lambda>cell. alignCellOk (js_trim cell))
                       (parseTableRow (tableLines (tableBlockText doc f t) ! 1))))"
proof -
  from enterTable_outside_unselected [OF span out nsel]
  obtain l1 l2 :: Line where en: "enterTable doc sel f t
               = Inr (case parseTableText (tableBlockText doc f t) of
                        Some parsed \<Rightarrow> [TableWidgetBlock parsed (lfrom l1) (lto l2)]
                      | None \<Rightarrow> [])"
    by blast
  show ?thesis
    unfolding en parseTableText_Some_iff [symmetric]
    by (cases "parseTableText (tableBlockText doc f t)") simp_all
qed

lemma enterTable_inside_frontmatter:
  "fst (detectFrontmatter doc) > 0 \<and> t \<le> fst (detectFrontmatter doc) \<Longrightarrow>
     enterTable doc sel f t = Inr []"
  by (simp add: enterTable_def)

lemma enterTable_selected:
  "isRangeSelected sel f t \<Longrightarrow> enterTable doc sel f t = Inr []"
  by (simp add: enterTable_def Let_def)

text \<open>
  Claim C7, as amended. For every document, every selection set and every Table node whose
  span lies in the document, that does not lie inside the frontmatter block and is not
  selection-overlapped, the Decoration Builder emits a block Widget exactly when the
  block's text has a second non-blank line and every cell of it matches \<open>^:?-+:?$\<close> (after
  trimming); otherwise it emits nothing for the block, and in neither case is an error
  raised. A Table node inside the frontmatter block (the frontmatter end is positive and the
  node ends at or before it) gets no widget, whatever its text and the selection; neither
  does a selection-overlapped Table node.
\<close>

theorem enterTable_widget_iff:
  "(fst (detectFrontmatter doc) > 0 \<and> t \<le> fst (detectFrontmatter doc)
      \<longrightarrow> enterTable doc sel f t = Inr [])
   \<and> (isRangeSelected sel f t \<longrightarrow> enterTable doc sel f t = Inr [])
   \<and> (0 \<le> f \<and> f \<le> t \<and> t \<le> int (length doc)
        \<and> \<not> (fst (detectFrontmatter doc) > 0 \<and> t \<le> fst (detectFrontmatter doc))
        \<and> \<not> isRangeSelected sel f t
      \<longrightarrow> (\<exists>ds. enterTable doc sel f t = Inr ds \<and> length ds \<le> 1
             \<and> (ds \<noteq> [] \<longleftrightarrow>
                  (2 \<le> length (tableLines (tableBlockText doc f t))
                   \<and> list_all (\<lambda>cell. alignCellOk (js_trim cell))
                         (parseTableRow (tableLines (tableBlockText doc f t) ! 1))))))"
proof (intro conjI impI)
  assume "fst (detectFrontmatter doc) > 0 \<and> t \<le> fst (detectFrontmatter doc)"
  then show "enterTable doc sel f t = Inr []" by (rule enterTable_inside_frontmatter)
next
  assume "isRangeSelected sel f t"
  then show "enterTable doc sel f t = Inr []" by (rule enterTable_selected)
next
  assume a: "0 \<le> f \<and> f \<le> t \<and> t \<le> int (length doc)
        \<and> \<not> (fst (detectFrontmatter doc) > 0 \<and> t \<le> fst (detectFrontmatter doc))
        \<and> \<not> isRangeSelected sel f t"
  then have span: "0 \<le> f" "f \<le> t" "t \<le> int (length doc)"
    and out: "\<not> (fst (detectFrontmatter doc) > 0 \<and> t \<le> fst (detectFrontmatter doc))"
    and nsel: "\<not> isRangeSelected sel f t"
    by blast+
  show "\<exists>ds. enterTable doc sel f t = Inr ds \<and> length ds \<le> 1
             \<and> (ds \<noteq> [] \<longleftrightarrow>
                  (2 \<le> length (tableLines (tableBlockText doc f t))
                   \<and> list_all (\<lambda>cell. alignCellOk (js_trim cell))
                         (parseTableRow (tableLines (tableBlockText doc f t) ! 1))))"
    by (rule enterTable_outside_iff [OF span out nsel])
qed

theorem enterTable_widget_iff_witness:
  "(\<exists>ds. enterTable (''x'' @ [CHR 0x0A] @ ''|a|b|'' @ [CHR 0x0A] @ ''|-|-|'' @ [CHR 0x0A])
           [\<lparr>sfrom = 0, sto = 0\<rparr>] 2 14 = Inr ds \<and> length ds \<le> 1
      \<and> (ds \<noteq> [] \<longleftrightarrow>
            (2 \<le> length (tableLines (tableBlockText
                    (''x'' @ [CHR 0x0A] @ ''|a|b|'' @ [CHR 0x0A] @ ''|-|-|'' @ [CHR 0x0A]) 2 14))
             \<and> list_all (\<lambda>cell. alignCellOk (js_trim cell))
                  (parseTableRow (tableLines (tableBlockText
                    (''x'' @ [CHR 0x0A] @ ''|a|b|'' @ [CHR 0x0A] @ ''|-|-|'' @ [CHR 0x0A]) 2 14) ! 1)))))
   \<and> enterTable (''---'' @ [CHR 0x0A] @ ''|a|b|'' @ [CHR 0x0A] @ ''|-|-|'' @ [CHR 0x0A, CHR 0x0A]
          @ ''---'' @ [CHR 0x0A] @ ''x'')
        [\<lparr>sfrom = 22, sto = 22\<rparr>] 4 15 = Inr []
   \<and> enterTable (''x'' @ [CHR 0x0A] @ ''|a|b|'' @ [CHR 0x0A] @ ''|-|-|'' @ [CHR 0x0A])
        [\<lparr>sfrom = 3, sto = 3\<rparr>] 2 14 = Inr []"
proof -
  have h1: "(0::int) \<le> 2" and h2: "(2::int) \<le> 14" by simp_all
  have h3: "14 \<le> int (length (''x'' @ [CHR 0x0A] @ ''|a|b|'' @ [CHR 0x0A] @ ''|-|-|'' @ [CHR 0x0A]))"
    by simp
  have h4: "\<not> (fst (detectFrontmatter (''x'' @ [CHR 0x0A] @ ''|a|b|'' @ [CHR 0x0A] @ ''|-|-|'' @ [CHR 0x0A])) > 0
              \<and> 14 \<le> fst (detectFrontmatter (''x'' @ [CHR 0x0A] @ ''|a|b|'' @ [CHR 0x0A] @ ''|-|-|'' @ [CHR 0x0A])))"
    by code_simp
  have h5: "\<not> isRangeSelected [\<lparr>sfrom = 0, sto = 0\<rparr>] 2 14" by simp
  from h1 h2 h3 h4 h5
  have h: "(0::int) \<le> 2 \<and> (2::int) \<le> 14
        \<and> 14 \<le> int (length (''x'' @ [CHR 0x0A] @ ''|a|b|'' @ [CHR 0x0A] @ ''|-|-|'' @ [CHR 0x0A]))
        \<and> \<not> (fst (detectFrontmatter (''x'' @ [CHR 0x0A] @ ''|a|b|'' @ [CHR 0x0A] @ ''|-|-|'' @ [CHR 0x0A])) > 0
              \<and> 14 \<le> fst (detectFrontmatter (''x'' @ [CHR 0x0A] @ ''|a|b|'' @ [CHR 0x0A] @ ''|-|-|'' @ [CHR 0x0A])))
        \<and> \<not> isRangeSelected [\<lparr>sfrom = 0, sto = 0\<rparr>] 2 14"
    by (intro conjI)
  have g: "fst (detectFrontmatter (''---'' @ [CHR 0x0A] @ ''|a|b|'' @ [CHR 0x0A] @ ''|-|-|'' @ [CHR 0x0A, CHR 0x0A]
          @ ''---'' @ [CHR 0x0A] @ ''x'')) > 0
        \<and> 15 \<le> fst (detectFrontmatter (''---'' @ [CHR 0x0A] @ ''|a|b|'' @ [CHR 0x0A] @ ''|-|-|'' @ [CHR 0x0A, CHR 0x0A]
          @ ''---'' @ [CHR 0x0A] @ ''x''))"
    by code_simp
  have k: "isRangeSelected [\<lparr>sfrom = 3, sto = 3\<rparr>] 2 14" by simp
  note t1 = enterTable_widget_iff [of "''x'' @ [CHR 0x0A] @ ''|a|b|'' @ [CHR 0x0A] @ ''|-|-|'' @ [CHR 0x0A]" 14 "[\<lparr>sfrom = 0, sto = 0\<rparr>]" 2,
              THEN conjunct2, THEN conjunct2, THEN mp, OF h]
  note t2 = enterTable_widget_iff [of "''---'' @ [CHR 0x0A] @ ''|a|b|'' @ [CHR 0x0A] @ ''|-|-|'' @ [CHR 0x0A, CHR 0x0A] @ ''---'' @ [CHR 0x0A] @ ''x''" 15 "[\<lparr>sfrom = 22, sto = 22\<rparr>]" 4,
              THEN conjunct1, THEN mp, OF g]
  note t3 = enterTable_widget_iff [of "''x'' @ [CHR 0x0A] @ ''|a|b|'' @ [CHR 0x0A] @ ''|-|-|'' @ [CHR 0x0A]" 14 "[\<lparr>sfrom = 3, sto = 3\<rparr>]" 2,
              THEN conjunct2, THEN conjunct1, THEN mp, OF k]
  from t1 t2 t3 show ?thesis by (intro conjI)
qed

text \<open>
  Claim C7 as stated fails for a Table node inside the frontmatter block: the \<open>enter\<close>
  callback returns before the Table branch when the node ends at or before the end of the
  frontmatter. The document below opens with \<open>---\<close>, closes the block with \<open>---\<close> on its
  fifth line (which ends at offset 20) and goes on with a line \<open>x\<close>; the table on lines two
  and three has a valid alignment row, is not selection-overlapped, and gets no widget.
\<close>

theorem enterTable_widget_iff_counterexample:
  "enterTable (''---'' @ [CHR 0x0A] @ ''|a|b|'' @ [CHR 0x0A] @ ''|-|-|'' @ [CHR 0x0A, CHR 0x0A]
                 @ ''---'' @ [CHR 0x0A] @ ''x'')
      [\<lparr>sfrom = 22, sto = 22\<rparr>] 4 15 = Inr []
   \<and> \<not> isRangeSelected [\<lparr>sfrom = 22, sto = 22\<rparr>] 4 15
   \<and> tableBlockText (''---'' @ [CHR 0x0A] @ ''|a|b|'' @ [CHR 0x0A] @ ''|-|-|'' @ [CHR 0x0A, CHR 0x0A]
                 @ ''---'' @ [CHR 0x0A] @ ''x'') 4 15
       = ''|a|b|'' @ [CHR 0x0A] @ ''|-|-|''
   \<and> parseTableRow (tableLines (''|a|b|'' @ [CHR 0x0A] @ ''|-|-|'') ! 1) = [''-'', ''-'']
   \<and> list_all (\<lambda>cell. alignCellOk (js_trim cell)) [''-'', ''-'']
   \<and> detectFrontmatter (''---'' @ [CHR 0x0A] @ ''|a|b|'' @ [CHR 0x0A] @ ''|-|-|'' @ [CHR 0x0A, CHR 0x0A]
                 @ ''---'' @ [CHR 0x0A] @ ''x'')
       = (20, 0)"
  by code_simp

section \<open>Properties of the Table Widget Editing Bridge\<close>

lemma sync_grid:
  "sync st = Inr st' \<Longrightarrow> domHead st' = domHead st \<and> domBody st' = domBody st"
  by (auto simp: sync_def Let_def split: if_splits)

lemma sync_ok:
  assumes "wellPlaced st"
  shows "\<exists>st'. sync st = Inr st' \<and> wellPlaced st'"
proof -
  let ?new = "reconstructMarkdown (liveHeaders st) (liveRows st) (liveAligns st)"
  from assms have r: "0 \<le> docFrom st" "docFrom st \<le> docTo st" "docTo st \<le> int (length (buffer st))"
    by (simp_all add: wellPlaced_def)
  from length_replaceRange [OF r, of ?new] r
  have "docFrom st + int (length ?new)
          \<le> int (length (replaceRange (buffer st) (docFrom st) (docTo st) ?new))"
    by simp
  with r assms show ?thesis
    by (auto simp: sync_def Let_def validChange_def wellPlaced_def)
qed

lemma domDeleteAt_Inr:
  "domDeleteAt xs i = Inr ys \<Longrightarrow> length ys = length xs - 1 \<and> set ys \<subseteq> set xs"
  by (auto simp: domDeleteAt_def split: if_splits dest: in_set_butlastD in_set_takeD in_set_dropD)

lemma domDeleteAt_ok:
  "- 1 \<le> i \<Longrightarrow> i < int (length xs) \<Longrightarrow> \<exists>ys. domDeleteAt xs i = Inr ys"
  by (auto simp: domDeleteAt_def)

lemma deleteCells_Inr:
  "deleteCells body i = Inr body' \<Longrightarrow> list_all (\<lambda>row. length row = n) body \<Longrightarrow>
     length body' = length body \<and> list_all (\<lambda>row. length row = n - 1) body'"
proof (induction body arbitrary: body')
  case Nil
  then show ?case by simp
next
  case (Cons row others)
  from Cons.prems(1) obtain row' others' where
    r: "domDeleteAt row i = Inr row'" and o: "deleteCells others i = Inr others'"
    and b: "body' = row' # others'"
    by (auto split: sum.splits)
  from Cons.IH [OF o] Cons.prems(2) domDeleteAt_Inr [OF r] b show ?case by simp
qed

lemma deleteCells_ok:
  "- 1 \<le> i \<Longrightarrow> i < int n \<Longrightarrow> list_all (\<lambda>row. length row = n) body \<Longrightarrow>
     \<exists>body'. deleteCells body i = Inr body'"
proof (induction body)
  case Nil
  then show ?case by simp
next
  case (Cons row others)
  from Cons.prems have "i < int (length row)" by simp
  from domDeleteAt_ok [OF Cons.prems(1) this] obtain row' where "domDeleteAt row i = Inr row'"
    by blast
  moreover from Cons obtain others' where "deleteCells others i = Inr others'" by auto
  ultimately show ?case by simp
qed

lemma gridShapeOk_after_sync:
  assumes "sync st = Inr st'" "gridShapeOk st"
  shows "gridShapeOk st'"
  using sync_grid [OF assms(1)] assms(2) by (simp add: gridShapeOk_def)

lemma addRow_shape:
  assumes "gridShapeOk st" "addRowDOM (readDOM st) = Inr st'"
  shows "gridShapeOk st'"
proof -
  from assms(1) have "gridShapeOk (readDOM st
            \<lparr>domBody := domBody (readDOM st) @ [map (\<lambda>h. []) (liveHeaders (readDOM st))],
              liveRows := liveRows (readDOM st) @ [map (\<lambda>h. []) (liveHeaders (readDOM st))]\<rparr>)"
    by (simp add: gridShapeOk_def readDOM_def)
  with assms(2) show ?thesis
    unfolding addRowDOM_def by (rule gridShapeOk_after_sync)
qed

lemma addColumn_shape:
  assumes "gridShapeOk st" "addColumnDOM st = Inr st'"
  shows "gridShapeOk st'"
proof -
  from assms(1) have "gridShapeOk (readDOM st
            \<lparr>liveHeaders := liveHeaders (readDOM st) @ [[]],
               liveAligns := liveAligns (readDOM st) @ [AlignLeft],
               domHead := domHead (readDOM st) @ [[]],
               domBody := map (\<lambda>row. row @ [[]]) (domBody (readDOM st)),
               liveRows := map (\<lambda>row. row @ [[]]) (liveRows (readDOM st))\<rparr>)"
    by (simp add: gridShapeOk_def readDOM_def list_all_iff)
  with assms(2) show ?thesis
    unfolding addColumnDOM_def Let_def by (rule gridShapeOk_after_sync)
qed

lemma deleteRow_shape:
  assumes "gridShapeOk st" "deleteRowDOM i st = Inr st'"
  shows "gridShapeOk st'"
proof (cases "length (domBody st) \<le> 1")
  case True
  with assms show ?thesis by (auto simp: deleteRowDOM_def readDOM_def gridShapeOk_def)
next
  case False
  with assms(2) obtain body where d: "domDeleteAt (domBody st) i = Inr body"
    and s: "sync (readDOM st\<lparr>domBody := body, liveRows := splice1 (liveRows (readDOM st)) i\<rparr>) = Inr st'"
    by (auto simp: deleteRowDOM_def readDOM_def Let_def split: sum.splits)
  from domDeleteAt_Inr [OF d] False assms(1)
  have "gridShapeOk (readDOM st\<lparr>domBody := body, liveRows := splice1 (liveRows (readDOM st)) i\<rparr>)"
    by (auto simp: gridShapeOk_def readDOM_def list_all_iff)
  from gridShapeOk_after_sync [OF s this] show ?thesis .
qed

lemma deleteColumn_shape:
  assumes "gridShapeOk st" "deleteColumnDOM i st = Inr st'"
  shows "gridShapeOk st'"
proof (cases "length (domHead st) \<le> 2")
  case True
  with assms show ?thesis by (auto simp: deleteColumnDOM_def readDOM_def gridShapeOk_def)
next
  case False
  with assms(2) obtain hd' body where d: "domDeleteAt (domHead st) i = Inr hd'"
    and c: "deleteCells (domBody st) i = Inr body"
    and s: "sync (readDOM st\<lparr>domHead := hd', domBody := body,
                           liveHeaders := splice1 (liveHeaders (readDOM st)) i,
                           liveAligns := splice1 (liveAligns (readDOM st)) i,
                           liveRows := map (\<lambda>row. splice1 row i) (liveRows (readDOM st))\<rparr>) = Inr st'"
    by (auto simp: deleteColumnDOM_def readDOM_def Let_def split: sum.splits)
  from assms(1) have all: "list_all (\<lambda>row. length row = length (domHead st)) (domBody st)"
    by (simp add: gridShapeOk_def)
  from domDeleteAt_Inr [OF d] deleteCells_Inr [OF c all] False assms(1)
  have "gridShapeOk (readDOM st\<lparr>domHead := hd', domBody := body,
                           liveHeaders := splice1 (liveHeaders (readDOM st)) i,
                           liveAligns := splice1 (liveAligns (readDOM st)) i,
                           liveRows := map (\<lambda>row. splice1 row i) (liveRows (readDOM st))\<rparr>)"
    by (auto simp: gridShapeOk_def readDOM_def)
  from gridShapeOk_after_sync [OF s this] show ?thesis .
qed

lemma applyGridOp_shape:
  "gridShapeOk st \<Longrightarrow> applyGridOp op st = Inr st' \<Longrightarrow> gridShapeOk st'"
  by (cases op)
     (auto simp: applyGridOp_def intro: addRow_shape addColumn_shape deleteRow_shape deleteColumn_shape)

lemma applyGridOp_ok:
  assumes shape: "gridShapeOk st" and placed: "wellPlaced st" and idx: "opIndexOk op st"
  shows "\<exists>st'. applyGridOp op st = Inr st' \<and> wellPlaced st'"
proof (cases op)
  case AddRow
  have "wellPlaced (readDOM st
            \<lparr>domBody := domBody (readDOM st) @ [map (\<lambda>h. []) (liveHeaders (readDOM st))],
              liveRows := liveRows (readDOM st) @ [map (\<lambda>h. []) (liveHeaders (readDOM st))]\<rparr>)"
    using placed by (simp add: wellPlaced_def readDOM_def)
  from sync_ok [OF this] AddRow show ?thesis by (simp add: applyGridOp_def addRowDOM_def)
next
  case AddColumn
  have "wellPlaced (readDOM st
            \<lparr>liveHeaders := liveHeaders (readDOM st) @ [[]],
               liveAligns := liveAligns (readDOM st) @ [AlignLeft],
               domHead := domHead (readDOM st) @ [[]],
               domBody := map (\<lambda>row. row @ [[]]) (domBody (readDOM st)),
               liveRows := map (\<lambda>row. row @ [[]]) (liveRows (readDOM st))\<rparr>)"
    using placed by (simp add: wellPlaced_def readDOM_def)
  from sync_ok [OF this] AddColumn show ?thesis
    by (simp add: applyGridOp_def addColumnDOM_def Let_def)
next
  case (DeleteRow i)
  show ?thesis
  proof (cases "length (domBody st) \<le> 1")
    case True
    with placed DeleteRow show ?thesis
      by (simp add: applyGridOp_def deleteRowDOM_def readDOM_def wellPlaced_def)
  next
    case False
    from idx DeleteRow have "- 1 \<le> i" "i < int (length (domBody st))"
      by (simp_all add: opIndexOk_def)
    from domDeleteAt_ok [OF this] obtain body where d: "domDeleteAt (domBody st) i = Inr body"
      by blast
    have "wellPlaced (readDOM st\<lparr>domBody := body, liveRows := splice1 (liveRows (readDOM st)) i\<rparr>)"
      using placed by (simp add: wellPlaced_def readDOM_def)
    from sync_ok [OF this] d False DeleteRow show ?thesis
      by (simp add: applyGridOp_def deleteRowDOM_def readDOM_def Let_def)
  qed
next
  case (DeleteColumn i)
  show ?thesis
  proof (cases "length (domHead st) \<le> 2")
    case True
    with placed DeleteColumn show ?thesis
      by (simp add: applyGridOp_def deleteColumnDOM_def readDOM_def wellPlaced_def)
  next
    case False
    from idx DeleteColumn have i: "- 1 \<le> i" "i < int (length (domHead st))"
      by (simp_all add: opIndexOk_def)
    from domDeleteAt_ok [OF i] obtain hd' where d: "domDeleteAt (domHead st) i = Inr hd'"
      by blast
    from shape have "list_all (\<lambda>row. length row = length (domHead st)) (domBody st)"
      by (simp add: gridShapeOk_def)
    from deleteCells_ok [OF i this] obtain body where c: "deleteCells (domBody st) i = Inr body"
      by blast
    have "wellPlaced (readDOM st\<lparr>domHead := hd', domBody := body,
                           liveHeaders := splice1 (liveHeaders (readDOM st)) i,
                           liveAligns := splice1 (liveAligns (readDOM st)) i,
                           liveRows := map (\<lambda>row. splice1 row i) (liveRows (readDOM st))\<rparr>)"
      using placed by (simp add: wellPlaced_def readDOM_def)
    from sync_ok [OF this] d c False DeleteColumn show ?thesis
      by (simp add: applyGridOp_def deleteColumnDOM_def readDOM_def Let_def)
  qed
qed

text \<open>
  Claim C8. Every grid operation (add row, add column, delete row, delete column) preserves
  the minimum shape of at least one data row and at least two columns: on a grid of that
  shape whose source range lies in the buffer, a request that names a row or column of the
  grid succeeds and leaves a grid of that shape, and whenever an operation returns, the
  shape is kept. A row deletion when at most one data row remains, and a column deletion
  when at most two columns remain, are no-ops: the grid and the buffer stay as they are.
\<close>

theorem gridOps_preserve_minimum_shape:
  "(gridShapeOk st \<and> wellPlaced st \<and> opIndexOk op st
      \<longrightarrow> (\<exists>st'. applyGridOp op st = Inr st' \<and> gridShapeOk st' \<and> wellPlaced st'))
   \<and> (gridShapeOk st \<longrightarrow> (\<forall>st'. applyGridOp op st = Inr st' \<longrightarrow> gridShapeOk st'))
   \<and> (length (domBody st) \<le> 1
        \<longrightarrow> (\<exists>st'. deleteRowDOM i st = Inr st' \<and> sameGridAndBuffer st st'))
   \<and> (length (domHead st) \<le> 2
        \<longrightarrow> (\<exists>st'. deleteColumnDOM j st = Inr st' \<and> sameGridAndBuffer st st'))"
proof (intro conjI impI)
  assume a: "gridShapeOk st \<and> wellPlaced st \<and> opIndexOk op st"
  then obtain st' where s: "applyGridOp op st = Inr st'" "wellPlaced st'"
    using applyGridOp_ok by blast
  from a applyGridOp_shape [OF _ s(1)] have "gridShapeOk st'" by blast
  with s show "\<exists>st'. applyGridOp op st = Inr st' \<and> gridShapeOk st' \<and> wellPlaced st'" by blast
next
  assume "gridShapeOk st"
  then show "\<forall>st'. applyGridOp op st = Inr st' \<longrightarrow> gridShapeOk st'"
    using applyGridOp_shape by blast
next
  assume "length (domBody st) \<le> 1"
  then show "\<exists>st'. deleteRowDOM i st = Inr st' \<and> sameGridAndBuffer st st'"
    by (simp add: deleteRowDOM_def readDOM_def sameGridAndBuffer_def)
next
  assume "length (domHead st) \<le> 2"
  then show "\<exists>st'. deleteColumnDOM j st = Inr st' \<and> sameGridAndBuffer st st'"
    by (simp add: deleteColumnDOM_def readDOM_def sameGridAndBuffer_def)
qed

theorem gridOps_preserve_minimum_shape_witness:
  "(\<exists>st'. applyGridOp (DeleteColumn 1)
             \<lparr>domHead = [''a'', ''b'', ''c''], domBody = [[''1'', ''2'', ''3'']],
              liveHeaders = [''a'', ''b'', ''c''], liveRows = [[''1'', ''2'', ''3'']],
              liveAligns = [AlignLeft, AlignLeft, AlignLeft],
              buffer = ''| a | b | c |'' @ [CHR 0x0A] @ ''| :--- | :--- | :--- |'' @ [CHR 0x0A]
                         @ ''| 1 | 2 | 3 |'',
              docFrom = 0, docTo = 50\<rparr> = Inr st' \<and> gridShapeOk st' \<and> wellPlaced st')
   \<and> (\<exists>st'. deleteRowDOM 0
             \<lparr>domHead = [''a'', ''b'', ''c''], domBody = [[''1'', ''2'', ''3'']],
              liveHeaders = [''a'', ''b'', ''c''], liveRows = [[''1'', ''2'', ''3'']],
              liveAligns = [AlignLeft, AlignLeft, AlignLeft],
              buffer = ''| a | b | c |'' @ [CHR 0x0A] @ ''| :--- | :--- | :--- |'' @ [CHR 0x0A]
                         @ ''| 1 | 2 | 3 |'',
              docFrom = 0, docTo = 50\<rparr> = Inr st'
          \<and> sameGridAndBuffer
             \<lparr>domHead = [''a'', ''b'', ''c''], domBody = [[''1'', ''2'', ''3'']],
              liveHeaders = [''a'', ''b'', ''c''], liveRows = [[''1'', ''2'', ''3'']],
              liveAligns = [AlignLeft, AlignLeft, AlignLeft],
              buffer = ''| a | b | c |'' @ [CHR 0x0A] @ ''| :--- | :--- | :--- |'' @ [CHR 0x0A]
                         @ ''| 1 | 2 | 3 |'',
              docFrom = 0, docTo = 50\<rparr> st')"
proof -
  let ?st = "\<lparr>domHead = [''a'', ''b'', ''c''], domBody = [[''1'', ''2'', ''3'']],
              liveHeaders = [''a'', ''b'', ''c''], liveRows = [[''1'', ''2'', ''3'']],
              liveAligns = [AlignLeft, AlignLeft, AlignLeft],
              buffer = ''| a | b | c |'' @ [CHR 0x0A] @ ''| :--- | :--- | :--- |'' @ [CHR 0x0A]
                         @ ''| 1 | 2 | 3 |'',
              docFrom = 0, docTo = 50\<rparr>"
  have h1: "gridShapeOk ?st" by (simp add: gridShapeOk_def)
  have h2: "wellPlaced ?st" by (simp add: wellPlaced_def)
  have h3: "opIndexOk (DeleteColumn 1) ?st" by (simp add: opIndexOk_def)
  have h4: "length (domBody ?st) \<le> 1" by simp
  from gridOps_preserve_minimum_shape [of ?st "DeleteColumn 1" 0 0] h1 h2 h3 h4 show ?thesis by blast
qed

end
